theory Spec2Isabelle
  imports Complex_Main "HOL-Library.Word"
begin
unbundle bit_operations_syntax

section \<open>Shared vocabulary of the three stressors\<close>

text \<open>
  The exit codes of stress-ng.h are used symbolically by the stressors; only their
  identity matters, so they are a datatype.
\<close>

datatype exit_status = EXIT_SUCCESS | EXIT_FAILURE | EXIT_NO_RESOURCE | EXIT_NOT_IMPLEMENTED

text \<open>
  Modelled from the spec: the aggregation kind handed to the reporting sink
  \<^verbatim>\<open>stress_metrics_set\<close> (declared in stress-ng.h, which is not part of the sources):
  \<open>aggregation_kind\<close> is one of arithmetic mean and harmonic mean. The macros
  \<^verbatim>\<open>STRESS_METRIC_HARMONIC_MEAN\<close> (stress-dfp.c) and \<^verbatim>\<open>STRESS_HARMONIC_MEAN\<close>
  (stress-prime.c) both denote \<open>HARMONIC_MEAN\<close>.
\<close>

datatype aggregation_kind = ARITHMETIC_MEAN | HARMONIC_MEAN

text \<open>
  One call of \<^verbatim>\<open>stress_metrics_set\<close>: the slot index, the description, the value, and
  the aggregation kind when the call passes one (the call of stress-ipsec-mb.c has four
  arguments and passes none). A \<^verbatim>\<open>double\<close> is modelled as a real number: the claims are
  about which values are accumulated and emitted, not about rounding.
\<close>

record metric =
  m_idx :: nat
  m_desc :: string
  m_value :: real
  m_kind :: "aggregation_kind option"

section \<open>stress-dfp.c: decimal floating point stressor\<close>

definition LOOPS_PER_CALL :: nat where
  "LOOPS_PER_CALL = 65536"

definition DFP_ELEMENTS :: nat where
  "DFP_ELEMENTS = 8"

datatype dfp_type_t =
  STRESS_DFP_TYPE_DECIMAL32 | STRESS_DFP_TYPE_DECIMAL64 | STRESS_DFP_TYPE_DECIMAL128 |
  STRESS_DFP_TYPE_ALL

text \<open>The build configuration: which of the three decimal types the compiler has.\<close>

record dfp_build =
  HAVE_Decimal32 :: bool
  HAVE_Decimal64 :: bool
  HAVE_Decimal128 :: bool

datatype dfp_field = d32 | d64 | d128

datatype dfp_macro = STRESS_DFP_ADD | STRESS_DFP_MUL | STRESS_DFP_DIV

text \<open>
  The function pointer of a table entry: \<^verbatim>\<open>stress_dfp_all\<close>, or one instance of the three
  macros at one field (\<^verbatim>\<open>stress_dfp_d32_add\<close> is \<open>Fn STRESS_DFP_ADD d32\<close>).
\<close>

datatype stress_dfp_func_t = Fn_all | Fn dfp_macro dfp_field

text \<open>
  The constant part of \<^verbatim>\<open>stress_dfp_funcs_t\<close>; the mutable members \<^verbatim>\<open>duration\<close> and
  \<^verbatim>\<open>ops\<close> live in the state below.
\<close>

record stress_dfp_funcs_t =
  dfp_name :: string
  dfp_description :: string
  dfp_func :: stress_dfp_func_t
  dfp_type :: dfp_type_t

definition dfp_entry ::
  "string \<Rightarrow> string \<Rightarrow> stress_dfp_func_t \<Rightarrow> dfp_type_t \<Rightarrow> stress_dfp_funcs_t" where
  "dfp_entry n d f t = \<lparr>dfp_name = n, dfp_description = d, dfp_func = f, dfp_type = t\<rparr>"

definition stress_dfp_funcs :: "dfp_build \<Rightarrow> stress_dfp_funcs_t list" where
  "stress_dfp_funcs B =
     [dfp_entry ''all'' ''all fp methods'' Fn_all STRESS_DFP_TYPE_ALL] @
     (if HAVE_Decimal32 B
      then [dfp_entry ''df32add'' ''_Decimal32 add'' (Fn STRESS_DFP_ADD d32) STRESS_DFP_TYPE_DECIMAL32]
      else []) @
     (if HAVE_Decimal64 B
      then [dfp_entry ''df64add'' ''_Decimal64 add'' (Fn STRESS_DFP_ADD d64) STRESS_DFP_TYPE_DECIMAL64]
      else []) @
     (if HAVE_Decimal128 B
      then [dfp_entry ''df128add'' ''_Decimal128 add'' (Fn STRESS_DFP_ADD d128) STRESS_DFP_TYPE_DECIMAL128]
      else []) @
     (if HAVE_Decimal32 B
      then [dfp_entry ''df32mul'' ''_Decimal32 mul'' (Fn STRESS_DFP_MUL d32) STRESS_DFP_TYPE_DECIMAL32]
      else []) @
     (if HAVE_Decimal64 B
      then [dfp_entry ''df64mul'' ''_Decimal64 mul'' (Fn STRESS_DFP_MUL d64) STRESS_DFP_TYPE_DECIMAL64]
      else []) @
     (if HAVE_Decimal128 B
      then [dfp_entry ''df128mul'' ''_Decimal128 mul'' (Fn STRESS_DFP_MUL d128) STRESS_DFP_TYPE_DECIMAL128]
      else []) @
     (if HAVE_Decimal32 B
      then [dfp_entry ''df32div'' ''_Decimal32 div'' (Fn STRESS_DFP_DIV d32) STRESS_DFP_TYPE_DECIMAL32]
      else []) @
     (if HAVE_Decimal64 B
      then [dfp_entry ''df64div'' ''_Decimal64 div'' (Fn STRESS_DFP_DIV d64) STRESS_DFP_TYPE_DECIMAL64]
      else []) @
     (if HAVE_Decimal128 B
      then [dfp_entry ''df128div'' ''_Decimal128 div'' (Fn STRESS_DFP_DIV d128) STRESS_DFP_TYPE_DECIMAL128]
      else [])"

definition STRESS_NUM_DFP_FUNCS :: "dfp_build \<Rightarrow> nat" where
  "STRESS_NUM_DFP_FUNCS B = length (stress_dfp_funcs B)"

text \<open>\<^verbatim>\<open>stress_dfp_type\<close>: the description of a type, by search in \<^verbatim>\<open>dfp_type_map\<close>.\<close>

definition dfp_type_map :: "(dfp_type_t \<times> string) list" where
  "dfp_type_map =
     [(STRESS_DFP_TYPE_DECIMAL32, ''_Decimal32''),
      (STRESS_DFP_TYPE_DECIMAL64, ''_Decimal64''),
      (STRESS_DFP_TYPE_DECIMAL128, ''_Decimal128''),
      (STRESS_DFP_TYPE_ALL, ''all'')]"

definition stress_dfp_type :: "dfp_type_t \<Rightarrow> string" where
  "stress_dfp_type t = (case map_of dfp_type_map t of Some d \<Rightarrow> d | None \<Rightarrow> ''unknown'')"

subsection \<open>Data and state\<close>

text \<open>
  \<^verbatim>\<open>dfp_data[i].d32.r[idx]\<close> is \<open>d32_r D i idx\<close>: the object representation of a
  \<^verbatim>\<open>_Decimal32\<close> is its 32 bits, of a \<^verbatim>\<open>_Decimal64\<close> 64 bits, of a \<^verbatim>\<open>_Decimal128\<close> 128 bits.
  The operands (\<^verbatim>\<open>r_init\<close>, \<^verbatim>\<open>add\<close>, \<^verbatim>\<open>add_rev\<close>, \<^verbatim>\<open>mul\<close>, \<^verbatim>\<open>mul_rev\<close>) are read only by the
  arithmetic of the workload, whose outcome the environment supplies (see below).
\<close>

record dfp_data_t =
  d32_r :: "nat \<Rightarrow> nat \<Rightarrow> 32 word"
  d64_r :: "nat \<Rightarrow> nat \<Rightarrow> 64 word"
  d128_r :: "nat \<Rightarrow> nat \<Rightarrow> 128 word"

text \<open>
  What one run of a workload function (an instance of \<^verbatim>\<open>STRESS_DFP_ADD\<close>, \<^verbatim>\<open>_MUL\<close> or
  \<^verbatim>\<open>_DIV\<close>) observes from outside the harness: the two readings of
  \<^verbatim>\<open>stress_time_now()\<close>, the bits the decimal arithmetic leaves in \<^verbatim>\<open>r[idx]\<close> of each
  element (a hardware fault may make two runs differ), and whether SIGALRM was delivered
  meanwhile, which clears the continue flag.
\<close>

record dfp_outcome =
  o_t1 :: real
  o_t2 :: real
  o_r32 :: "nat \<Rightarrow> 32 word"
  o_r64 :: "nat \<Rightarrow> 64 word"
  o_r128 :: "nat \<Rightarrow> 128 word"
  o_alarm :: bool

text \<open>
  The environment of a run: the outcome of the n-th workload run, the flag
  \<^verbatim>\<open>g_opt_flags & OPT_FLAGS_VERIFY\<close>, and the bogo-op budget (0: none).
\<close>

record dfp_env =
  outcome_of :: "nat \<Rightarrow> dfp_outcome"
  opt_flags_verify :: bool
  max_ops :: nat

text \<open>One \<^verbatim>\<open>pr_fail\<close> line of the verification: the \<^verbatim>\<open>%s %s %zd %Lf %Lf\<close> arguments, the
  two values as the bits they were converted from.\<close>

record dfp_fail =
  fail_description :: string
  fail_method_name :: string
  fail_element :: nat
  fail_got :: "32 word"
  fail_expected :: "32 word"

text \<open>
  The state the harness works on: the \<^verbatim>\<open>duration\<close> and \<^verbatim>\<open>ops\<close> members of
  \<^verbatim>\<open>stress_dfp_funcs[]\<close> by index, the data, the continue flag, the bogo counter, the
  lines \<^verbatim>\<open>pr_fail\<close> printed, the number of workload runs so far, a log of every call
  through a \<^verbatim>\<open>dfp_func\<close> pointer as (method index, idx), and a log of every \<^verbatim>\<open>memcmp\<close>
  of the verification as (method index, element), both oldest first.
\<close>

record dfp_state =
  duration :: "real list"
  ops :: "real list"
  dfp_data :: dfp_data_t
  continue_flag :: bool
  bogo :: nat
  fails :: "dfp_fail list"
  tick :: nat
  calls :: "(nat \<times> nat) list"
  compared :: "(nat \<times> nat) list"

subsection \<open>The workload functions\<close>

text \<open>
  An instance of \<^verbatim>\<open>STRESS_DFP_ADD/MUL/DIV(field, name, true)\<close>: it writes
  \<^verbatim>\<open>dfp_data[i].field.r[idx]\<close> for the \<^verbatim>\<open>DFP_ELEMENTS\<close> elements and nothing else of the
  data, increments the bogo counter and returns \<^verbatim>\<open>t2 - t1\<close>.
\<close>

definition write_r :: "(nat \<Rightarrow> nat \<Rightarrow> 'a) \<Rightarrow> nat \<Rightarrow> (nat \<Rightarrow> 'a) \<Rightarrow> (nat \<Rightarrow> nat \<Rightarrow> 'a)" where
  "write_r r idx v = (\<lambda>i j. if i < DFP_ELEMENTS \<and> j = idx then v i else r i j)"

definition dfp_store :: "dfp_field \<Rightarrow> nat \<Rightarrow> dfp_outcome \<Rightarrow> dfp_data_t \<Rightarrow> dfp_data_t" where
  "dfp_store f idx out D =
     (case f of
        d32 \<Rightarrow> D\<lparr>d32_r := write_r (d32_r D) idx (o_r32 out)\<rparr>
      | d64 \<Rightarrow> D\<lparr>d64_r := write_r (d64_r D) idx (o_r64 out)\<rparr>
      | d128 \<Rightarrow> D\<lparr>d128_r := write_r (d128_r D) idx (o_r128 out)\<rparr>)"

definition stress_dfp_arith ::
  "dfp_env \<Rightarrow> dfp_macro \<Rightarrow> dfp_field \<Rightarrow> nat \<Rightarrow> dfp_state \<Rightarrow> real \<times> dfp_state" where
  "stress_dfp_arith E m f idx s =
     (let out = outcome_of E (tick s);
          s' = s\<lparr>dfp_data := dfp_store f idx out (dfp_data s),
                 continue_flag := (continue_flag s \<and> \<not> o_alarm out),
                 bogo := bogo s + 1,
                 tick := tick s + 1\<rparr>
      in (o_t2 out - o_t1 out, s'))"

subsection \<open>Verification by comparison\<close>

text \<open>The bytes of a \<^verbatim>\<open>_Decimal32\<close> object, lowest address first.\<close>

definition d32_bytes :: "32 word \<Rightarrow> 8 word list" where
  "d32_bytes w = map (\<lambda>k. ucast (drop_bit (8 * k) w)) [0..<4]"

text \<open>\<^verbatim>\<open>memcmp(a, b, n)\<close> on two byte sequences of at least n bytes.\<close>

fun memcmp :: "8 word list \<Rightarrow> 8 word list \<Rightarrow> nat \<Rightarrow> int" where
  "memcmp (x # xs) (y # ys) (Suc n) =
     (if x = y then memcmp xs ys n else if x < y then - 1 else 1)"
| "memcmp xs ys n = 0"

definition accumulate :: "nat \<Rightarrow> real \<Rightarrow> dfp_state \<Rightarrow> dfp_state" where
  "accumulate method dt s =
     s\<lparr>duration := (duration s)[method := duration s ! method + dt],
       ops := (ops s)[method := ops s ! method + real (DFP_ELEMENTS * LOOPS_PER_CALL)]\<rparr>"

definition pr_fail ::
  "dfp_build \<Rightarrow> nat \<Rightarrow> nat \<Rightarrow> 32 word \<Rightarrow> 32 word \<Rightarrow> dfp_state \<Rightarrow> dfp_state" where
  "pr_fail B method i r0 r1 s =
     s\<lparr>fails := fails s @
        [\<lparr>fail_description = stress_dfp_type (dfp_type (stress_dfp_funcs B ! method)),
          fail_method_name = dfp_name (stress_dfp_funcs B ! method),
          fail_element = i, fail_got = r0, fail_expected = r1\<rparr>]\<rparr>"

definition log_memcmp :: "nat \<Rightarrow> nat \<Rightarrow> dfp_state \<Rightarrow> dfp_state" where
  "log_memcmp method i s = s\<lparr>compared := compared s @ [(method, i)]\<rparr>"

text \<open>
  The loop \<^verbatim>\<open>for (i = 0; i < DFP_ELEMENTS; i++)\<close> of \<^verbatim>\<open>stress_dfp_call_method\<close>, from
  element i on. The \<^verbatim>\<open>switch\<close> has the case \<^verbatim>\<open>STRESS_DFP_TYPE_DECIMAL32\<close> when the build
  has \<^verbatim>\<open>_Decimal32\<close>, and a \<^verbatim>\<open>default\<close> that returns \<^verbatim>\<open>EXIT_SUCCESS\<close>.
\<close>

function stress_dfp_compare ::
  "dfp_build \<Rightarrow> nat \<Rightarrow> nat \<Rightarrow> dfp_state \<Rightarrow> exit_status \<times> dfp_state" where
  "stress_dfp_compare B method i s =
     (if i < DFP_ELEMENTS then
        (if HAVE_Decimal32 B \<and> dfp_type (stress_dfp_funcs B ! method) = STRESS_DFP_TYPE_DECIMAL32
         then
           (let ret = memcmp (d32_bytes (d32_r (dfp_data s) i 0))
                             (d32_bytes (d32_r (dfp_data s) i 1)) 4;
                r0 = d32_r (dfp_data s) i 0;
                r1 = d32_r (dfp_data s) i 1
            in if ret \<noteq> 0 then (EXIT_FAILURE, pr_fail B method i r0 r1 (log_memcmp method i s))
               else stress_dfp_compare B method (i + 1) (log_memcmp method i s))
         else (EXIT_SUCCESS, s))
      else (EXIT_SUCCESS, s))"
  by pat_completeness auto
termination
  by (relation "measure (\<lambda>(B, method, i, s). DFP_ELEMENTS - i)") auto

subsection \<open>Dispatch: \<^verbatim>\<open>stress_dfp_call_method\<close> and \<^verbatim>\<open>stress_dfp_all\<close>\<close>

definition log_call :: "nat \<Rightarrow> nat \<Rightarrow> dfp_state \<Rightarrow> dfp_state" where
  "log_call method idx s = s\<lparr>calls := calls s @ [(method, idx)]\<rparr>"

lemma dfp_all_only_first:
  "method < STRESS_NUM_DFP_FUNCS B \<Longrightarrow> dfp_func (stress_dfp_funcs B ! method) = Fn_all
   \<Longrightarrow> method = 0"
  by (cases "method")
     (auto simp: STRESS_NUM_DFP_FUNCS_def stress_dfp_funcs_def dfp_entry_def nth_append nth_Cons'
           split: if_splits)

text \<open>
  \<open>stress_dfp_func_call B E method idx\<close> is the call
  \<^verbatim>\<open>stress_dfp_funcs[method].dfp_func(args, dfp_data, idx)\<close>; an index outside the table is
  undefined behaviour in C and \<open>None\<close> here. \<open>stress_dfp_all_loop B E verify i\<close> is the loop
  of \<^verbatim>\<open>stress_dfp_all\<close> from index i on.
\<close>

function stress_dfp_func_call ::
    "dfp_build \<Rightarrow> dfp_env \<Rightarrow> nat \<Rightarrow> nat \<Rightarrow> dfp_state \<Rightarrow> (real \<times> dfp_state) option"
  and stress_dfp_call_method ::
    "dfp_build \<Rightarrow> dfp_env \<Rightarrow> nat \<Rightarrow> bool \<Rightarrow> dfp_state \<Rightarrow> (exit_status \<times> dfp_state) option"
  and stress_dfp_all_loop ::
    "dfp_build \<Rightarrow> dfp_env \<Rightarrow> bool \<Rightarrow> nat \<Rightarrow> dfp_state \<Rightarrow> (real \<times> dfp_state) option"
where
  "stress_dfp_func_call B E method idx s =
     (if method < STRESS_NUM_DFP_FUNCS B then
        (case dfp_func (stress_dfp_funcs B ! method) of
           Fn_all \<Rightarrow> stress_dfp_all_loop B E (opt_flags_verify E) 1 (log_call method idx s)
         | Fn m f \<Rightarrow> Some (stress_dfp_arith E m f idx (log_call method idx s)))
      else None)"
| "stress_dfp_call_method B E method verify s =
     (case stress_dfp_func_call B E method 0 s of
        None \<Rightarrow> None
      | Some (dt, s1) \<Rightarrow>
          (let s2 = accumulate method dt s1 in
           if method > 0 \<and> method < STRESS_NUM_DFP_FUNCS B \<and> verify then
             (case stress_dfp_func_call B E method 1 s2 of
                None \<Rightarrow> None
              | Some (dt2, s3) \<Rightarrow>
                  if dt2 < 0 then Some (EXIT_FAILURE, s3)
                  else
                    (let s4 = accumulate method dt2 s3 in
                     if \<not> continue_flag s4 then Some (EXIT_SUCCESS, s4)
                     else Some (stress_dfp_compare B method 0 s4)))
           else Some (EXIT_SUCCESS, s2)))"
| "stress_dfp_all_loop B E verify i s =
     (if i < STRESS_NUM_DFP_FUNCS B then
        (case stress_dfp_call_method B E i verify s of
           None \<Rightarrow> None
         | Some (rc, s') \<Rightarrow>
             if rc = EXIT_FAILURE then Some (- 1, s')
             else stress_dfp_all_loop B E verify (i + 1) s')
      else Some (0, s))"
  by pat_completeness auto
termination
proof (relation "measure (\<lambda>x. case x of
          Inl (B, E, method, idx, s) \<Rightarrow> (if method = 0 then STRESS_NUM_DFP_FUNCS B + 2 else 0)
        | Inr (Inl (B, E, method, verify, s)) \<Rightarrow>
            (if method = 0 then STRESS_NUM_DFP_FUNCS B + 3 else 1)
        | Inr (Inr (B, E, verify, i, s)) \<Rightarrow>
            (if i = 0 then STRESS_NUM_DFP_FUNCS B + 4 else 2 + (STRESS_NUM_DFP_FUNCS B - i)))",
       goal_cases)
  case 1
  show ?case by simp
next
  case (2 B E meth idx s)
  then have "meth = 0" by (rule dfp_all_only_first)
  with 2 show ?case by simp
next
  case 3
  then show ?case by simp
next
  case 4
  then show ?case by simp
next
  case 5
  then show ?case by simp
next
  case 6
  then show ?case by auto
qed

declare stress_dfp_compare.simps [simp del]
declare stress_dfp_func_call.simps [simp del]
declare stress_dfp_call_method.simps [simp del]
declare stress_dfp_all_loop.simps [simp del]

text \<open>\<^verbatim>\<open>stress_dfp_all\<close>: the parameter idx is unused, verify is read from the global flags.\<close>

definition stress_dfp_all ::
  "dfp_build \<Rightarrow> dfp_env \<Rightarrow> nat \<Rightarrow> dfp_state \<Rightarrow> (real \<times> dfp_state) option" where
  "stress_dfp_all B E idx s = stress_dfp_all_loop B E (opt_flags_verify E) 1 s"

subsection \<open>The stressor \<^verbatim>\<open>stress_dfp\<close>\<close>

text \<open>
  Modelled from the spec: \<^verbatim>\<open>stress_continue(args)\<close> (core code, not part of the sources)
  is the negated stop condition: the continue flag is set (no deadline signal yet) and the
  bogo-op budget, when there is one, is not used up.
\<close>

definition stress_continue :: "dfp_env \<Rightarrow> dfp_state \<Rightarrow> bool" where
  "stress_continue E s = (continue_flag s \<and> (max_ops E = 0 \<or> bogo s < max_ops E))"

text \<open>
  The loop \<^verbatim>\<open>do { ... } while (stress_continue(args))\<close>. It ends only when the environment
  stops the run, so the model takes a bound on the number of iterations: \<open>None\<close> when the
  bound is used up before the loop ends (or on undefined behaviour of the call).
\<close>

fun stress_dfp_loop ::
  "nat \<Rightarrow> dfp_build \<Rightarrow> dfp_env \<Rightarrow> nat \<Rightarrow> bool \<Rightarrow> dfp_state \<Rightarrow> (exit_status \<times> dfp_state) option"
where
  "stress_dfp_loop 0 B E fp_method verify s = None"
| "stress_dfp_loop (Suc n) B E fp_method verify s =
     (case stress_dfp_call_method B E fp_method verify s of
        None \<Rightarrow> None
      | Some (r, s') \<Rightarrow>
          if r = EXIT_FAILURE then Some (EXIT_FAILURE, s')
          else if stress_continue E s' then stress_dfp_loop n B E fp_method verify s'
          else Some (EXIT_SUCCESS, s'))"

text \<open>\<^verbatim>\<open>snprintf(msg, sizeof(msg), "Mdfp-ops per sec, %-20s", description)\<close> with
  \<^verbatim>\<open>char msg[64]\<close>.\<close>

definition pad_right :: "nat \<Rightarrow> string \<Rightarrow> string" where
  "pad_right n str = str @ replicate (n - length str) CHR '' ''"

definition dfp_metric_msg :: "string \<Rightarrow> string" where
  "dfp_metric_msg d = take 63 (''Mdfp-ops per sec, '' @ pad_right 20 d)"

text \<open>The report loop \<^verbatim>\<open>for (i = 1; i < STRESS_NUM_DFP_FUNCS; i++)\<close>, from index i on: the
  calls of \<^verbatim>\<open>stress_metrics_set\<close> it makes, in order.\<close>

function stress_dfp_report :: "dfp_build \<Rightarrow> nat \<Rightarrow> dfp_state \<Rightarrow> metric list" where
  "stress_dfp_report B i s =
     (if i < STRESS_NUM_DFP_FUNCS B then
        (if duration s ! i > 0 \<and> ops s ! i > 0 then
           [\<lparr>m_idx = i - 1,
             m_desc = dfp_metric_msg (dfp_description (stress_dfp_funcs B ! i)),
             m_value = (ops s ! i / duration s ! i) / 1000000,
             m_kind = Some HARMONIC_MEAN\<rparr>]
         else []) @ stress_dfp_report B (i + 1) s
      else [])"
  by pat_completeness auto
termination
  by (relation "measure (\<lambda>(B, i, s). STRESS_NUM_DFP_FUNCS B - i)") auto

declare stress_dfp_report.simps [simp del]

text \<open>
  The state at the start of the run loop: the table's counters are 0.0, the elements'
  \<^verbatim>\<open>d32.r[0]\<close> and \<^verbatim>\<open>d32.r[1]\<close> hold the same random start value (\<open>rnd i\<close> for element i),
  and the rest of the fresh anonymous mapping is zero.
\<close>

definition dfp_init :: "dfp_build \<Rightarrow> (nat \<Rightarrow> 32 word) \<Rightarrow> dfp_state" where
  "dfp_init B rnd =
     \<lparr>duration = replicate (STRESS_NUM_DFP_FUNCS B) 0,
      ops = replicate (STRESS_NUM_DFP_FUNCS B) 0,
      dfp_data = \<lparr>d32_r = (\<lambda>i idx. if HAVE_Decimal32 B \<and> i < DFP_ELEMENTS then rnd i else 0),
                  d64_r = (\<lambda>i idx. 0), d128_r = (\<lambda>i idx. 0)\<rparr>,
      continue_flag = True, bogo = 0, fails = [], tick = 0, calls = [], compared = []\<rparr>"

text \<open>
  \<^verbatim>\<open>stress_dfp\<close>: \<open>mmap_ok\<close> tells whether \<^verbatim>\<open>stress_mmap_populate\<close> succeeded, \<open>fp_method\<close>
  is the setting read by \<^verbatim>\<open>stress_get_setting\<close> (0, "all", by default). The result is the
  exit status, the metrics set, and the final state when the run got as far as having one.
\<close>

definition stress_dfp ::
  "nat \<Rightarrow> dfp_build \<Rightarrow> dfp_env \<Rightarrow> bool \<Rightarrow> nat \<Rightarrow> (nat \<Rightarrow> 32 word) \<Rightarrow>
   (exit_status \<times> metric list \<times> dfp_state option) option" where
  "stress_dfp fuel B E mmap_ok fp_method rnd =
     (if \<not> mmap_ok then Some (EXIT_NO_RESOURCE, [], None)
      else
        (case stress_dfp_loop fuel B E fp_method (opt_flags_verify E) (dfp_init B rnd) of
           None \<Rightarrow> None
         | Some (rc, s) \<Rightarrow> Some (rc, stress_dfp_report B 1 s, Some s)))"

subsection \<open>Notions used to state the properties of the harness\<close>

text \<open>Element i of the data differs between result slot 0 and result slot 1, byte for
  byte, in its \<^verbatim>\<open>_Decimal32\<close> result.\<close>

definition d32_differ :: "dfp_state \<Rightarrow> nat \<Rightarrow> bool" where
  "d32_differ s i =
     (d32_bytes (d32_r (dfp_data s) i 0) \<noteq> d32_bytes (d32_r (dfp_data s) i 1))"

text \<open>
  Modelled from the spec: \<^verbatim>\<open>stress_time_now()\<close> (core code, not part of the sources) is
  a monotonic timestamp, so the second reading of a workload run is not before the first.
\<close>

definition monotonic_clock :: "dfp_env \<Rightarrow> bool" where
  "monotonic_clock E = (\<forall>n. o_t1 (outcome_of E n) \<le> o_t2 (outcome_of E n))"

text \<open>
  The spec's words for the "all" entry, as a function of its own: call each listed method
  once, in the order of the list, and stop with the failure sentinel at the first call
  that reports failure.
\<close>

fun dfp_call_each ::
  "dfp_build \<Rightarrow> dfp_env \<Rightarrow> bool \<Rightarrow> nat list \<Rightarrow> dfp_state \<Rightarrow> (real \<times> dfp_state) option" where
  "dfp_call_each B E v [] s = Some (0, s)"
| "dfp_call_each B E v (m # ms) s =
     (case stress_dfp_call_method B E m v s of
        None \<Rightarrow> None
      | Some (rc, s') \<Rightarrow>
          if rc = EXIT_FAILURE then Some (- 1, s') else dfp_call_each B E v ms s')"

text \<open>
  State \<open>s'\<close> comes after state s in a run: the workload runs in between read the outcomes
  numbered from \<open>tick s\<close> up to \<open>tick s'\<close>, and the continue flag is still set exactly when
  it was set in s and none of these runs saw the deadline signal.
\<close>

definition dfp_later :: "dfp_env \<Rightarrow> dfp_state \<Rightarrow> dfp_state \<Rightarrow> bool" where
  "dfp_later E s s' =
     (tick s \<le> tick s' \<and>
      continue_flag s' =
        (continue_flag s \<and> (\<forall>j\<in>{tick s..<tick s'}. \<not> o_alarm (outcome_of E j))))"

text \<open>
  The state after the first pass of a call of a workload method (the run into slot 0 and
  its accumulation), and after the run into slot 1 of the second pass.
\<close>

definition pass0 :: "dfp_env \<Rightarrow> nat \<Rightarrow> dfp_macro \<Rightarrow> dfp_field \<Rightarrow> dfp_state \<Rightarrow> dfp_state" where
  "pass0 E method m f s =
     accumulate method (fst (stress_dfp_arith E m f 0 (log_call method 0 s)))
       (snd (stress_dfp_arith E m f 0 (log_call method 0 s)))"

definition pass1 :: "dfp_env \<Rightarrow> nat \<Rightarrow> dfp_macro \<Rightarrow> dfp_field \<Rightarrow> dfp_state \<Rightarrow> dfp_state" where
  "pass1 E method m f s =
     snd (stress_dfp_arith E m f 1 (log_call method 1 (pass0 E method m f s)))"

text \<open>Concrete inputs: the build with all three decimal types, a workload outcome, and
  environments that differ in the outcome of single runs.\<close>

definition dfp_build_all :: dfp_build where
  "dfp_build_all = \<lparr>HAVE_Decimal32 = True, HAVE_Decimal64 = True, HAVE_Decimal128 = True\<rparr>"

definition dfp_outcome_1 :: dfp_outcome where
  "dfp_outcome_1 =
     \<lparr>o_t1 = 0, o_t2 = 1, o_r32 = (\<lambda>i. 5), o_r64 = (\<lambda>i. 0), o_r128 = (\<lambda>i. 0),
      o_alarm = False\<rparr>"

definition dfp_env_alarm_second :: dfp_env where
  "dfp_env_alarm_second =
     \<lparr>outcome_of = (\<lambda>n. dfp_outcome_1\<lparr>o_alarm := (n = 1)\<rparr>),
      opt_flags_verify = True, max_ops = 0\<rparr>"

definition dfp_env_mismatch :: dfp_env where
  "dfp_env_mismatch =
     \<lparr>outcome_of = (\<lambda>n. if n = 1 then dfp_outcome_1\<lparr>o_r32 := (\<lambda>i. if i < 3 then 5 else 6)\<rparr>
                         else dfp_outcome_1),
      opt_flags_verify = True, max_ops = 0\<rparr>"

definition dfp_env_steady :: dfp_env where
  "dfp_env_steady =
     \<lparr>outcome_of = (\<lambda>n. dfp_outcome_1), opt_flags_verify = True, max_ops = 0\<rparr>"

section \<open>stress-prime.c: prime search stressor\<close>

text \<open>
  The process state set by \<^verbatim>\<open>stress_set_proc_state\<close>, as far as the stressors use it.
\<close>

datatype proc_state_t =
  STRESS_STATE_START | STRESS_STATE_SYNC_WAIT | STRESS_STATE_RUN | STRESS_STATE_DEINIT

definition STRESS_PRIME_METHOD_FACTORIAL :: int where "STRESS_PRIME_METHOD_FACTORIAL = 0"
definition STRESS_PRIME_METHOD_INC :: int where "STRESS_PRIME_METHOD_INC = 1"
definition STRESS_PRIME_METHOD_PWR2 :: int where "STRESS_PRIME_METHOD_PWR2 = 2"
definition STRESS_PRIME_METHOD_PWR10 :: int where "STRESS_PRIME_METHOD_PWR10 = 3"

text \<open>
  The state of the stressor: the run's continue flag, the handler's \<^verbatim>\<open>static int count\<close>,
  the file's \<^verbatim>\<open>jumped\<close>, the locals of \<^verbatim>\<open>stress_prime\<close> (the three \<^verbatim>\<open>mpz_t\<close> values as
  natural numbers), the bogo counter, whether \<^verbatim>\<open>mpz_clears\<close> has been called, the process
  state, the metrics set, and the number of loop iterations started.
\<close>

record prime_state =
  pr_continue_flag :: bool
  count :: int
  jumped :: bool
  pr_duration :: real
  digits :: nat
  start :: nat
  val :: nat
  factorial :: nat
  pr_bogo :: nat
  mpz_cleared :: bool
  proc_state :: proc_state_t
  pr_metrics :: "metric list"
  iter :: nat

text \<open>
  What one iteration of the loop observes from outside: the prime \<^verbatim>\<open>mpz_nextprime\<close> finds
  (the primality test is out of the harness's scope), the time it takes, the digit count
  \<^verbatim>\<open>mpz_sizeinbase\<close> reports, and how many times SIGALRM is delivered while
  \<^verbatim>\<open>mpz_nextprime\<close> runs.
\<close>

record prime_event =
  ev_prime :: nat
  ev_elapsed :: real
  ev_digits :: nat
  ev_alarms :: nat

record prime_env =
  event_of :: "nat \<Rightarrow> prime_event"
  pr_max_ops :: nat

text \<open>
  \<^verbatim>\<open>stress_prime_alarm_handler\<close>. The second component tells whether
  \<^verbatim>\<open>siglongjmp(jmpbuf, 1)\<close> is performed. \<^verbatim>\<open>count\<close> is an \<^verbatim>\<open>int\<close>: the increment is written
  with the wrap-around of a 32-bit two's complement value.
\<close>

definition stress_prime_alarm_handler :: "prime_state \<Rightarrow> prime_state \<times> bool" where
  "stress_prime_alarm_handler s =
     (let s1 = s\<lparr>pr_continue_flag := False\<rparr>;
          s2 = s1\<lparr>count := signed_take_bit 31 (count s1 + 1)\<rparr>
      in (s2, 1 < count s2))"

text \<open>
  n deliveries of SIGALRM in a row: each runs the handler; a \<^verbatim>\<open>siglongjmp\<close> leaves the
  interrupted computation, so the deliveries after it do not happen there.
\<close>

fun deliver :: "nat \<Rightarrow> prime_state \<Rightarrow> prime_state \<times> bool" where
  "deliver 0 s = (s, False)"
| "deliver (Suc n) s =
     (case stress_prime_alarm_handler s of
        (s', jmp) \<Rightarrow> if jmp then (s', True) else deliver n s')"

text \<open>The body of the loop after \<^verbatim>\<open>mpz_nextprime\<close> has returned.\<close>

definition prime_body :: "int \<Rightarrow> prime_event \<Rightarrow> prime_state \<Rightarrow> prime_state" where
  "prime_body prime_method ev s =
     (let s1 = s\<lparr>val := ev_prime ev, pr_duration := pr_duration s + ev_elapsed ev\<rparr>;
          s2 = (if prime_method = STRESS_PRIME_METHOD_INC then s1\<lparr>start := val s1 + 2\<rparr>
                else if prime_method = STRESS_PRIME_METHOD_PWR2 then s1\<lparr>start := start s1 * 2\<rparr>
                else if prime_method = STRESS_PRIME_METHOD_PWR10 then s1\<lparr>start := start s1 * 10\<rparr>
                else s1\<lparr>start := start s1 * factorial s1, factorial := factorial s1 + 1\<rparr>)
      in s2\<lparr>pr_bogo := pr_bogo s2 + 1, digits := ev_digits ev, iter := iter s2 + 1\<rparr>)"

text \<open>
  Modelled from the spec: \<^verbatim>\<open>stress_continue(args)\<close> (core code, not part of the sources),
  the negated stop condition, as for the decimal stressor.
\<close>

definition prime_continue :: "prime_env \<Rightarrow> prime_state \<Rightarrow> bool" where
  "prime_continue E s = (pr_continue_flag s \<and> (pr_max_ops E = 0 \<or> pr_bogo s < pr_max_ops E))"

text \<open>
  The loop \<^verbatim>\<open>do { ... } while (stress_continue(args))\<close>, with a bound on the number of
  iterations (\<open>None\<close> when it is used up). The result tells whether the loop was left by
  \<^verbatim>\<open>siglongjmp\<close>.
\<close>

fun stress_prime_loop ::
  "nat \<Rightarrow> prime_env \<Rightarrow> int \<Rightarrow> prime_state \<Rightarrow> (prime_state \<times> bool) option" where
  "stress_prime_loop 0 E prime_method s = None"
| "stress_prime_loop (Suc n) E prime_method s =
     (case deliver (ev_alarms (event_of E (iter s))) s of
        (s1, jmp) \<Rightarrow>
          if jmp then Some (s1, True)
          else
            (let s2 = prime_body prime_method (event_of E (iter s)) s1 in
             if prime_continue E s2 then stress_prime_loop n E prime_method s2
             else Some (s2, False)))"

text \<open>The code from the label \<^verbatim>\<open>finish\<close> to the return.\<close>

definition stress_prime_finish :: "prime_state \<Rightarrow> exit_status \<times> prime_state" where
  "stress_prime_finish s =
     (let s1 = (if \<not> jumped s then s\<lparr>mpz_cleared := True\<rparr> else s);
          ops = pr_bogo s1;
          rate = (if pr_duration s1 > 0 then real ops / pr_duration s1 else 0);
          s2 = s1\<lparr>pr_metrics := pr_metrics s1 @
                  [\<lparr>m_idx = 0, m_desc = ''primes per second'', m_value = rate,
                    m_kind = Some HARMONIC_MEAN\<rparr>]\<rparr>
      in (EXIT_SUCCESS, s2\<lparr>proc_state := STRESS_STATE_DEINIT\<rparr>))"

definition prime_init :: prime_state where
  "prime_init =
     \<lparr>pr_continue_flag = True, count = 0, jumped = False, pr_duration = 0, digits = 1,
      start = 1, val = 0, factorial = 2, pr_bogo = 0, mpz_cleared = False,
      proc_state = STRESS_STATE_RUN, pr_metrics = [], iter = 0\<rparr>"

text \<open>
  \<^verbatim>\<open>stress_prime\<close>: \<open>sighandler_ok\<close> tells whether \<^verbatim>\<open>stress_sighandler\<close> succeeded. When the
  loop is left by \<^verbatim>\<open>siglongjmp\<close>, \<^verbatim>\<open>sigsetjmp\<close> returns non-zero, \<^verbatim>\<open>jumped\<close> is set and control
  goes to \<^verbatim>\<open>finish\<close>.
\<close>

definition stress_prime ::
  "nat \<Rightarrow> prime_env \<Rightarrow> bool \<Rightarrow> int \<Rightarrow> (exit_status \<times> prime_state) option" where
  "stress_prime fuel E sighandler_ok prime_method =
     (if \<not> sighandler_ok then Some (EXIT_NO_RESOURCE, prime_init)
      else
        (case stress_prime_loop fuel E prime_method prime_init of
           None \<Rightarrow> None
         | Some (s, escaped) \<Rightarrow>
             Some (stress_prime_finish (if escaped then s\<lparr>jumped := True\<rparr> else s))))"

text \<open>The state after k iterations of the loop during which no signal arrives.\<close>

fun prime_quiet :: "nat \<Rightarrow> prime_env \<Rightarrow> int \<Rightarrow> prime_state \<Rightarrow> prime_state" where
  "prime_quiet 0 E prime_method s = s"
| "prime_quiet (Suc k) E prime_method s =
     prime_quiet k E prime_method (prime_body prime_method (event_of E (iter s)) s)"

text \<open>A concrete environment: SIGALRM arrives n times during the third iteration.\<close>

definition prime_env_alarms :: "nat \<Rightarrow> prime_env" where
  "prime_env_alarms n =
     \<lparr>event_of = (\<lambda>k. \<lparr>ev_prime = 2 * k + 3, ev_elapsed = 1, ev_digits = 1,
                        ev_alarms = (if k = 2 then n else 0)\<rparr>),
      pr_max_ops = 0\<rparr>"

text \<open>A concrete environment: the clock does not advance during \<^verbatim>\<open>mpz_nextprime\<close>, and
  SIGALRM arrives once during the first iteration.\<close>

definition prime_env_instant :: prime_env where
  "prime_env_instant =
     \<lparr>event_of = (\<lambda>k. \<lparr>ev_prime = 2, ev_elapsed = 0, ev_digits = 1, ev_alarms = 1\<rparr>),
      pr_max_ops = 0\<rparr>"

section \<open>stress-ipsec-mb.c: IPSec multi-buffer stressor\<close>

text \<open>
  The feature bits of intel-ipsec-mb.h that the stressor uses. The header belongs to the
  library, not to this repository, so the bits are a parameter of the model.
\<close>

record imb_features_t =
  IMB_FEATURE_SSE4_2 :: "64 word"
  IMB_FEATURE_CMOV :: "64 word"
  IMB_FEATURE_AESNI :: "64 word"
  IMB_FEATURE_AVX :: "64 word"
  IMB_FEATURE_AVX2 :: "64 word"
  IMB_FEATURE_AVX512_SKX :: "64 word"

datatype init_func_t = init_mb_mgr_avx | init_mb_mgr_avx2 | init_mb_mgr_avx512 | init_mb_mgr_sse

text \<open>
  The constant part of \<^verbatim>\<open>stress_ipsec_features_t\<close>; \<^verbatim>\<open>supported\<close> and \<^verbatim>\<open>stats\<close> live in the
  state below.
\<close>

record stress_ipsec_features_t =
  features :: "64 word"
  init_func :: init_func_t
  feature_name :: string

definition mb_features :: "imb_features_t \<Rightarrow> stress_ipsec_features_t list" where
  "mb_features F =
     [\<lparr>features = IMB_FEATURE_AVX F OR IMB_FEATURE_CMOV F OR IMB_FEATURE_AESNI F,
       init_func = init_mb_mgr_avx, feature_name = ''avx''\<rparr>,
      \<lparr>features = IMB_FEATURE_AVX2 F OR IMB_FEATURE_AVX F OR IMB_FEATURE_CMOV F OR
                   IMB_FEATURE_AESNI F,
       init_func = init_mb_mgr_avx2, feature_name = ''avx2''\<rparr>,
      \<lparr>features = IMB_FEATURE_AVX512_SKX F OR IMB_FEATURE_AVX2 F OR IMB_FEATURE_AVX F OR
                   IMB_FEATURE_CMOV F OR IMB_FEATURE_AESNI F,
       init_func = init_mb_mgr_avx512, feature_name = ''avx512''\<rparr>,
      \<lparr>features = IMB_FEATURE_SSE4_2 F OR IMB_FEATURE_CMOV F,
       init_func = init_mb_mgr_sse, feature_name = ''noaesni''\<rparr>,
      \<lparr>features = IMB_FEATURE_SSE4_2 F OR IMB_FEATURE_CMOV F OR IMB_FEATURE_AESNI F,
       init_func = init_mb_mgr_sse, feature_name = ''sse''\<rparr>]"

text \<open>\<^verbatim>\<open>SIZEOF_ARRAY(mb_features)\<close>.\<close>

definition NUM_MB_FEATURES :: nat where
  "NUM_MB_FEATURES = 5"

datatype ipsec_func_t =
  Ipsec_all | Ipsec_cmac | Ipsec_ctr | Ipsec_des | Ipsec_hmac_md5 | Ipsec_hmac_sha1 |
  Ipsec_hmac_sha512 | Ipsec_sha

text \<open>\<^verbatim>\<open>stress_ipsec_funcs[]\<close>: the function and its name.\<close>

definition stress_ipsec_funcs :: "(ipsec_func_t \<times> string) list" where
  "stress_ipsec_funcs =
     [(Ipsec_all, ''all''), (Ipsec_cmac, ''cmac''), (Ipsec_ctr, ''ctr''), (Ipsec_des, ''des''),
      (Ipsec_hmac_md5, ''hmac-md5''), (Ipsec_hmac_sha1, ''hmac-sha1''),
      (Ipsec_hmac_sha512, ''hmac-sha512''), (Ipsec_sha, ''sha'')]"

definition NUM_IPSEC_FUNCS :: nat where
  "NUM_IPSEC_FUNCS = length stress_ipsec_funcs"

text \<open>
  The state: \<^verbatim>\<open>mb_features[i].supported\<close> and \<^verbatim>\<open>mb_features[i].stats\<close> by index, the bogo
  counter, the clock \<^verbatim>\<open>stress_time_now()\<close> reads, the run's continue flag, the
  \<^verbatim>\<open>init_func\<close> that last prepared \<^verbatim>\<open>mb_mgr\<close>, and three logs, oldest first: the result of
  every call of \<^verbatim>\<open>stress_alloc_aligned\<close>, every call through \<^verbatim>\<open>stress_ipsec_funcs[].func\<close>
  as (index of the feature descriptor it runs under, function index), and the function
  index of every call of \<^verbatim>\<open>stress_ipsec_call_func\<close>.
\<close>

record ipsec_state =
  supported :: "bool list"
  st_ops :: "real list"
  st_duration :: "real list"
  counter :: nat
  time_now :: real
  ip_continue_flag :: bool
  mb_mgr_init :: "init_func_t option"
  allocs :: "bool list"
  invoked :: "(nat \<times> nat) list"
  call_funcs :: "nat list"
  ip_tick :: nat

text \<open>
  What one run of a job function (\<^verbatim>\<open>stress_ipsec_cmac\<close>, ..., \<^verbatim>\<open>stress_ipsec_sha\<close>) observes
  from outside: whether its \<^verbatim>\<open>stress_alloc_aligned\<close> succeeded, how many of its jobs the
  library completed, the time the call took, and whether the deadline signal arrived
  meanwhile.
\<close>

record ipsec_outcome =
  io_alloc_ok :: bool
  io_completed :: nat
  io_elapsed :: real
  io_alarm :: bool

record ipsec_env =
  ip_outcome_of :: "nat \<Rightarrow> ipsec_outcome"
  ip_max_ops :: nat

text \<open>
  Modelled from the spec: \<^verbatim>\<open>keep_stressing(args)\<close> (core code, not part of the sources) is
  the negated stop condition: the continue flag is set and the bogo-op budget, when there
  is one, is not used up.
\<close>

definition keep_stressing :: "ipsec_env \<Rightarrow> ipsec_state \<Rightarrow> bool" where
  "keep_stressing E s =
     (ip_continue_flag s \<and> (ip_max_ops E = 0 \<or> counter s < ip_max_ops E))"

text \<open>
  A job function. All seven have the same shape: allocate the per-call buffer and return
  at once if that fails; otherwise submit and flush \<open>jobs\<close> jobs, counting each completed
  one with \<^verbatim>\<open>inc_counter\<close>, and free the buffer.
\<close>

definition stress_ipsec_job_func :: "ipsec_env \<Rightarrow> nat \<Rightarrow> ipsec_state \<Rightarrow> ipsec_state" where
  "stress_ipsec_job_func E jobs s =
     (let out = ip_outcome_of E (ip_tick s);
          s1 = s\<lparr>allocs := allocs s @ [io_alloc_ok out],
                 time_now := time_now s + io_elapsed out,
                 ip_continue_flag := (ip_continue_flag s \<and> \<not> io_alarm out),
                 ip_tick := ip_tick s + 1\<rparr>
      in if \<not> io_alloc_ok out then s1
         else s1\<lparr>counter := counter s1 + min (io_completed out) jobs\<rparr>)"

definition ipsec_add_stats :: "nat \<Rightarrow> real \<Rightarrow> real \<Rightarrow> ipsec_state \<Rightarrow> ipsec_state" where
  "ipsec_add_stats i dt dc s =
     s\<lparr>st_duration := (st_duration s)[i := st_duration s ! i + dt],
       st_ops := (st_ops s)[i := st_ops s ! i + dc]\<rparr>"

lemma ipsec_all_only_first:
  "fi < NUM_IPSEC_FUNCS \<Longrightarrow> fst (stress_ipsec_funcs ! fi) = Ipsec_all \<Longrightarrow> fi = 0"
  by (cases fi) (auto simp: NUM_IPSEC_FUNCS_def stress_ipsec_funcs_def nth_Cons' split: if_splits)

text \<open>
  \<open>stress_ipsec_func F E jobs fi\<close> is the call
  \<^verbatim>\<open>stress_ipsec_funcs[func_index].func(args, mb_mgr, data, data_len, jobs)\<close> (\<open>None\<close> for
  an index outside the table), \<open>stress_ipsec_call_func_loop F E jobs fi i\<close> the loop of
  \<^verbatim>\<open>stress_ipsec_call_func\<close> from feature i on, and \<open>stress_ipsec_all_loop F E jobs i\<close> the loop
  of \<^verbatim>\<open>stress_ipsec_all\<close> from function i on.
\<close>

function stress_ipsec_func ::
    "imb_features_t \<Rightarrow> ipsec_env \<Rightarrow> nat \<Rightarrow> nat \<Rightarrow> ipsec_state \<Rightarrow> ipsec_state option"
  and stress_ipsec_call_func_loop ::
    "imb_features_t \<Rightarrow> ipsec_env \<Rightarrow> nat \<Rightarrow> nat \<Rightarrow> nat \<Rightarrow> ipsec_state \<Rightarrow> ipsec_state option"
  and stress_ipsec_all_loop ::
    "imb_features_t \<Rightarrow> ipsec_env \<Rightarrow> nat \<Rightarrow> nat \<Rightarrow> ipsec_state \<Rightarrow> ipsec_state option"
where
  "stress_ipsec_func F E jobs fi s =
     (if fi < NUM_IPSEC_FUNCS then
        (if fst (stress_ipsec_funcs ! fi) = Ipsec_all
         then stress_ipsec_all_loop F E jobs 1 s
         else Some (stress_ipsec_job_func E jobs s))
      else None)"
| "stress_ipsec_call_func_loop F E jobs fi i s =
     (if i < NUM_MB_FEATURES then
        (if supported s ! i then
           (let c = counter s;
                t = time_now s;
                s1 = s\<lparr>mb_mgr_init := Some (init_func (mb_features F ! i)),
                       invoked := invoked s @ [(i, fi)]\<rparr>
            in case stress_ipsec_func F E jobs fi s1 of
                 None \<Rightarrow> None
               | Some s2 \<Rightarrow>
                   stress_ipsec_call_func_loop F E jobs fi (i + 1)
                     (ipsec_add_stats i (time_now s2 - t) (real (counter s2 - c)) s2))
         else stress_ipsec_call_func_loop F E jobs fi (i + 1) s)
      else Some s)"
| "stress_ipsec_all_loop F E jobs i s =
     (if keep_stressing E s \<and> i < NUM_IPSEC_FUNCS then
        (case stress_ipsec_call_func_loop F E jobs i 0
                (s\<lparr>call_funcs := call_funcs s @ [i]\<rparr>) of
           None \<Rightarrow> None
         | Some s' \<Rightarrow> stress_ipsec_all_loop F E jobs (i + 1) s')
      else Some s)"
  by pat_completeness auto
termination
proof (relation "measure (\<lambda>x. case x of
          Inl (F, E, jobs, fi, s) \<Rightarrow> (if fi = 0 then 30 else 0)
        | Inr (Inl (F, E, jobs, fi, i, s)) \<Rightarrow>
            (if fi = 0 then 31 + (NUM_MB_FEATURES - i) else 1 + (NUM_MB_FEATURES - i))
        | Inr (Inr (F, E, jobs, i, s)) \<Rightarrow>
            (if i = 0 then 40 else 10 + (NUM_IPSEC_FUNCS - i)))",
       goal_cases)
  case 1
  show ?case by simp
next
  case (2 F E jobs fi s)
  then have "fi = 0" by (rule ipsec_all_only_first)
  then show ?case by (simp add: NUM_IPSEC_FUNCS_def stress_ipsec_funcs_def)
next
  case 3
  then show ?case by (auto simp: NUM_MB_FEATURES_def)
next
  case 4
  then show ?case by (auto simp: NUM_MB_FEATURES_def)
next
  case 5
  then show ?case by (auto simp: NUM_MB_FEATURES_def)
next
  case 6
  then show ?case by (auto simp: NUM_MB_FEATURES_def NUM_IPSEC_FUNCS_def stress_ipsec_funcs_def)
next
  case 7
  then show ?case by (auto simp: NUM_MB_FEATURES_def NUM_IPSEC_FUNCS_def stress_ipsec_funcs_def)
qed

declare stress_ipsec_func.simps [simp del]
declare stress_ipsec_call_func_loop.simps [simp del]
declare stress_ipsec_all_loop.simps [simp del]

text \<open>\<^verbatim>\<open>stress_ipsec_call_func\<close> and \<^verbatim>\<open>stress_ipsec_all\<close>.\<close>

definition stress_ipsec_call_func ::
  "imb_features_t \<Rightarrow> ipsec_env \<Rightarrow> nat \<Rightarrow> nat \<Rightarrow> ipsec_state \<Rightarrow> ipsec_state option" where
  "stress_ipsec_call_func F E jobs func_index s =
     stress_ipsec_call_func_loop F E jobs func_index 0
       (s\<lparr>call_funcs := call_funcs s @ [func_index]\<rparr>)"

definition stress_ipsec_all ::
  "imb_features_t \<Rightarrow> ipsec_env \<Rightarrow> nat \<Rightarrow> ipsec_state \<Rightarrow> ipsec_state option" where
  "stress_ipsec_all F E jobs s = stress_ipsec_all_loop F E jobs 1 s"

text \<open>
  One pass of the \<^verbatim>\<open>do\<close> loop of \<^verbatim>\<open>stress_ipsec_mb\<close>: the \<^verbatim>\<open>for\<close> loop over the features,
  from feature i on.
\<close>

function stress_ipsec_mb_pass ::
  "imb_features_t \<Rightarrow> ipsec_env \<Rightarrow> nat \<Rightarrow> nat \<Rightarrow> nat \<Rightarrow> ipsec_state \<Rightarrow> ipsec_state option"
where
  "stress_ipsec_mb_pass F E jobs ipsec_mb_method i s =
     (if i < NUM_MB_FEATURES then
        (if supported s ! i then
           (case stress_ipsec_call_func F E jobs ipsec_mb_method
                   (s\<lparr>mb_mgr_init := Some (init_func (mb_features F ! i))\<rparr>) of
              None \<Rightarrow> None
            | Some s' \<Rightarrow> stress_ipsec_mb_pass F E jobs ipsec_mb_method (i + 1) s')
         else stress_ipsec_mb_pass F E jobs ipsec_mb_method (i + 1) s)
      else Some s)"
  by pat_completeness auto
termination
  by (relation "measure (\<lambda>(F, E, jobs, m, i, s). NUM_MB_FEATURES - i)") auto

declare stress_ipsec_mb_pass.simps [simp del]

text \<open>The loop \<^verbatim>\<open>do { ... } while (keep_stressing(args))\<close>, with a bound on the number of
  passes (\<open>None\<close> when it is used up).\<close>

fun stress_ipsec_mb_loop ::
  "nat \<Rightarrow> imb_features_t \<Rightarrow> ipsec_env \<Rightarrow> nat \<Rightarrow> nat \<Rightarrow> ipsec_state \<Rightarrow> ipsec_state option"
where
  "stress_ipsec_mb_loop 0 F E jobs ipsec_mb_method s = None"
| "stress_ipsec_mb_loop (Suc n) F E jobs ipsec_mb_method s =
     (case stress_ipsec_mb_pass F E jobs ipsec_mb_method 0 s of
        None \<Rightarrow> None
      | Some s' \<Rightarrow>
          if keep_stressing E s' then stress_ipsec_mb_loop n F E jobs ipsec_mb_method s'
          else Some s')"

text \<open>
  The report loop \<^verbatim>\<open>for (i = 0, j = 0; ...)\<close>, from (i, j) on: the calls of
  \<^verbatim>\<open>stress_metrics_set(args, j, tmp, rate)\<close>, with \<^verbatim>\<open>char tmp[32]\<close>.
\<close>

function stress_ipsec_report ::
  "imb_features_t \<Rightarrow> nat \<Rightarrow> nat \<Rightarrow> ipsec_state \<Rightarrow> metric list" where
  "stress_ipsec_report F i j s =
     (if i < NUM_MB_FEATURES then
        (if st_duration s ! i > 0 then
           \<lparr>m_idx = j,
            m_desc = take 31 (feature_name (mb_features F ! i) @ '' bogo ops per sec''),
            m_value = st_ops s ! i / st_duration s ! i,
            m_kind = None\<rparr> # stress_ipsec_report F (i + 1) (j + 1) s
         else stress_ipsec_report F (i + 1) j s)
      else [])"
  by pat_completeness auto
termination
  by (relation "measure (\<lambda>(F, i, j, s). NUM_MB_FEATURES - i)") auto

declare stress_ipsec_report.simps [simp del]

definition ipsec_init :: ipsec_state where
  "ipsec_init =
     \<lparr>supported = replicate NUM_MB_FEATURES False,
      st_ops = replicate NUM_MB_FEATURES 0,
      st_duration = replicate NUM_MB_FEATURES 0,
      counter = 0, time_now = 0, ip_continue_flag = True, mb_mgr_init = None,
      allocs = [], invoked = [], call_funcs = [], ip_tick = 0\<rparr>"

definition ipsec_run ::
  "nat \<Rightarrow> imb_features_t \<Rightarrow> ipsec_env \<Rightarrow> nat \<Rightarrow> nat \<Rightarrow> ipsec_state \<Rightarrow>
   (exit_status \<times> metric list \<times> ipsec_state) option" where
  "ipsec_run fuel F E jobs ipsec_mb_method s =
     (case stress_ipsec_mb_loop fuel F E jobs ipsec_mb_method s of
        None \<Rightarrow> None
      | Some s' \<Rightarrow> Some (EXIT_SUCCESS, stress_ipsec_report F 0 0 s', s'))"

text \<open>
  \<^verbatim>\<open>stress_ipsec_mb\<close>: \<open>version_ok\<close> tells whether the library is at least version 0.51.0,
  \<open>alloc_mb_mgr_ok\<close> whether \<^verbatim>\<open>alloc_mb_mgr\<close> succeeded, \<open>feats\<close> is the feature word of the
  manager, \<open>ipsec_mb_feature\<close> the feature index the user pinned, if any (an index outside
  the table is undefined behaviour in C and \<open>None\<close> here). The result is the exit status, the
  metrics set and the final state.
\<close>

definition stress_ipsec_mb ::
  "nat \<Rightarrow> imb_features_t \<Rightarrow> ipsec_env \<Rightarrow> bool \<Rightarrow> bool \<Rightarrow> 64 word \<Rightarrow> nat option \<Rightarrow> nat \<Rightarrow> nat \<Rightarrow>
   (exit_status \<times> metric list \<times> ipsec_state) option" where
  "stress_ipsec_mb fuel F E version_ok alloc_mb_mgr_ok feats ipsec_mb_feature ipsec_mb_method
     ipsec_mb_jobs =
     (if \<not> version_ok then Some (EXIT_NOT_IMPLEMENTED, [], ipsec_init)
      else if \<not> alloc_mb_mgr_ok then Some (EXIT_NO_RESOURCE, [], ipsec_init)
      else
        (let s1 = ipsec_init\<lparr>supported :=
                    map (\<lambda>d. (features d AND feats) = features d) (mb_features F)\<rparr>
         in if True \<notin> set (supported s1) then Some (EXIT_NOT_IMPLEMENTED, [], s1)
            else
              (case ipsec_mb_feature of
                 None \<Rightarrow> ipsec_run fuel F E ipsec_mb_jobs ipsec_mb_method s1
               | Some f \<Rightarrow>
                   if NUM_MB_FEATURES \<le> f then None
                   else if \<not> supported s1 ! f then Some (EXIT_NOT_IMPLEMENTED, [], s1)
                   else ipsec_run fuel F E ipsec_mb_jobs ipsec_mb_method
                          (s1\<lparr>supported := map (\<lambda>i. i = f) [0..<NUM_MB_FEATURES]\<rparr>))))"

subsection \<open>Notions used to state the properties of the IPSec harness\<close>

text \<open>
  The spec's words for the "all" entry of this stressor: call
  \<^verbatim>\<open>stress_ipsec_call_func\<close> for each listed function once, in the order of the list, and
  stop before the first call at which the run's stop condition holds.
\<close>

fun ipsec_call_each ::
  "imb_features_t \<Rightarrow> ipsec_env \<Rightarrow> nat \<Rightarrow> nat list \<Rightarrow> ipsec_state \<Rightarrow> ipsec_state option" where
  "ipsec_call_each F E jobs [] s = Some s"
| "ipsec_call_each F E jobs (i # is) s =
     (if keep_stressing E s then
        (case stress_ipsec_call_func F E jobs i s of
           None \<Rightarrow> None
         | Some s' \<Rightarrow> ipsec_call_each F E jobs is s')
      else Some s)"

text \<open>
  State \<open>s'\<close> comes after state s in a run: the job function calls in between read the
  outcomes numbered from \<open>ip_tick s\<close> up to \<open>ip_tick s'\<close>, each made one allocation attempt
  that is logged, the bogo counter did not decrease, the feature flags are as they were,
  and the continue flag is still set exactly when it was set in s and none of these calls
  saw the deadline signal.
\<close>

definition ipsec_later :: "ipsec_env \<Rightarrow> ipsec_state \<Rightarrow> ipsec_state \<Rightarrow> bool" where
  "ipsec_later E s s' =
     (ip_tick s \<le> ip_tick s' \<and> counter s \<le> counter s' \<and> supported s' = supported s \<and>
      ip_continue_flag s' =
        (ip_continue_flag s \<and> (\<forall>j\<in>{ip_tick s..<ip_tick s'}. \<not> io_alarm (ip_outcome_of E j))) \<and>
      allocs s' =
        allocs s @ map (\<lambda>j. io_alloc_ok (ip_outcome_of E j)) [ip_tick s..<ip_tick s'])"

text \<open>The feature descriptors a state has as supported, in table order.\<close>

definition supported_features :: "ipsec_state \<Rightarrow> nat list" where
  "supported_features s = filter (\<lambda>d. supported s ! d) [0..<NUM_MB_FEATURES]"

text \<open>
  Concrete inputs: the feature bits as the library's header defines them, the feature word
  of a processor with SSE4.2, CMOV and AES-NI but without AVX, and environments of job
  function outcomes.
\<close>

definition imb_bits :: imb_features_t where
  "imb_bits =
     \<lparr>IMB_FEATURE_SSE4_2 = 16, IMB_FEATURE_CMOV = 8, IMB_FEATURE_AESNI = 2,
      IMB_FEATURE_AVX = 32, IMB_FEATURE_AVX2 = 64, IMB_FEATURE_AVX512_SKX = 3968\<rparr>"

definition feats_sse_aesni :: "64 word" where
  "feats_sse_aesni = 26"

definition ipsec_outcome_1 :: ipsec_outcome where
  "ipsec_outcome_1 = \<lparr>io_alloc_ok = True, io_completed = 1, io_elapsed = 1, io_alarm = False\<rparr>"

definition ipsec_env_steady :: ipsec_env where
  "ipsec_env_steady = \<lparr>ip_outcome_of = (\<lambda>n. ipsec_outcome_1), ip_max_ops = 0\<rparr>"

definition ipsec_env_alloc_fails :: ipsec_env where
  "ipsec_env_alloc_fails =
     \<lparr>ip_outcome_of = (\<lambda>n. if n = 0 then ipsec_outcome_1\<lparr>io_alloc_ok := False\<rparr>
                            else ipsec_outcome_1\<lparr>io_alarm := True\<rparr>),
      ip_max_ops = 0\<rparr>"

definition ipsec_two_supported :: ipsec_state where
  "ipsec_two_supported = ipsec_init\<lparr>supported := [False, False, False, True, True]\<rparr>"

section \<open>Facts about the decimal floating point harness\<close>

lemma memcmp_zero_iff:
  "length a = n \<Longrightarrow> length b = n \<Longrightarrow> (memcmp a b n = 0) = (a = b)"
proof (induction a b n rule: memcmp.induct)
  case (1 x xs y ys n)
  then show ?case by auto
qed auto

lemma d32_bytes_inj: "(d32_bytes x = d32_bytes y) = (x = y)"
proof
  assume eq: "d32_bytes x = d32_bytes y"
  have b0: "(ucast x :: 8 word) = ucast y"
   and b1: "(ucast (drop_bit 8 x) :: 8 word) = ucast (drop_bit 8 y)"
   and b2: "(ucast (drop_bit 16 x) :: 8 word) = ucast (drop_bit 16 y)"
   and b3: "(ucast (drop_bit 24 x) :: 8 word) = ucast (drop_bit 24 y)"
    using eq by (simp_all add: d32_bytes_def upt_rec)
  show "x = y"
  proof (rule bit_word_eqI)
    fix n assume n: "n < LENGTH(32)"
    consider "n < 8" | "8 \<le> n" "n < 16" | "16 \<le> n" "n < 24" | "24 \<le> n" "n < 32"
      using n by fastforce
    then show "bit x n = bit y n"
    proof cases
      case 1
      from b0 have "bit (ucast x :: 8 word) n = bit (ucast y :: 8 word) n" by simp
      with 1 show ?thesis by (simp add: bit_ucast_iff)
    next
      case 2
      from b1 have "bit (ucast (drop_bit 8 x) :: 8 word) (n - 8) = bit (ucast (drop_bit 8 y) :: 8 word) (n - 8)" by simp
      with 2 show ?thesis by (auto simp: bit_ucast_iff bit_drop_bit_eq)
    next
      case 3
      from b2 have "bit (ucast (drop_bit 16 x) :: 8 word) (n - 16) = bit (ucast (drop_bit 16 y) :: 8 word) (n - 16)" by simp
      with 3 show ?thesis by (auto simp: bit_ucast_iff bit_drop_bit_eq)
    next
      case 4
      from b3 have "bit (ucast (drop_bit 24 x) :: 8 word) (n - 24) = bit (ucast (drop_bit 24 y) :: 8 word) (n - 24)" by simp
      with 4 show ?thesis by (auto simp: bit_ucast_iff bit_drop_bit_eq)
    qed
  qed
qed simp

lemma d32_memcmp: "(memcmp (d32_bytes x) (d32_bytes y) 4 = 0) = (x = y)"
  by (subst memcmp_zero_iff) (simp_all add: d32_bytes_inj, simp_all add: d32_bytes_def)



lemma dfp_num_funcs_pos: "0 < STRESS_NUM_DFP_FUNCS B"
  by (simp add: STRESS_NUM_DFP_FUNCS_def stress_dfp_funcs_def)

lemma dfp_func_pos:
  assumes "0 < method" "method < STRESS_NUM_DFP_FUNCS B"
  shows "\<exists>m f. dfp_func (stress_dfp_funcs B ! method) = Fn m f"
proof (cases "dfp_func (stress_dfp_funcs B ! method)")
  case Fn_all
  with assms dfp_all_only_first [of "method" B] show ?thesis by simp
next
  case (Fn m f)
  then show ?thesis by blast
qed

lemma dfp_decimal32_built:
  "method < STRESS_NUM_DFP_FUNCS B \<Longrightarrow>
   dfp_type (stress_dfp_funcs B ! method) = STRESS_DFP_TYPE_DECIMAL32 \<Longrightarrow> HAVE_Decimal32 B"
  by (rule ccontr)
     (auto simp: STRESS_NUM_DFP_FUNCS_def stress_dfp_funcs_def dfp_entry_def nth_append nth_Cons'
           split: if_splits)

lemma d32_differ_log [simp]: "d32_differ (log_memcmp method i s) = d32_differ s"
  by (simp add: d32_differ_def log_memcmp_def fun_eq_iff)

lemma compare_find:
  assumes "HAVE_Decimal32 B"
    and "dfp_type (stress_dfp_funcs B ! method) = STRESS_DFP_TYPE_DECIMAL32"
  shows "stress_dfp_compare B method i s =
    (case find (d32_differ s) [i..<DFP_ELEMENTS] of
       None \<Rightarrow>
         (EXIT_SUCCESS, s\<lparr>compared := compared s @ map (Pair method) [i..<DFP_ELEMENTS]\<rparr>)
     | Some k \<Rightarrow>
         (EXIT_FAILURE,
          pr_fail B method k (d32_r (dfp_data s) k 0) (d32_r (dfp_data s) k 1)
            (s\<lparr>compared := compared s @ map (Pair method) [i..<Suc k]\<rparr>)))"
  using assms
proof (induction B "method" i s rule: stress_dfp_compare.induct)
  case (1 B meth i s)
  note assms = "1.prems"
  show ?case
  proof (cases "i < DFP_ELEMENTS")
    case False
    then show ?thesis
      by (subst stress_dfp_compare.simps) simp
  next
    case True
    note lt = this
    have upt: "[i..<DFP_ELEMENTS] = i # [Suc i..<DFP_ELEMENTS]"
      using lt by (simp add: upt_rec)
    show ?thesis
    proof (cases "d32_differ s i")
      case True
      then show ?thesis
        using lt assms
        apply (subst stress_dfp_compare.simps)
        apply (simp add: upt d32_differ_def d32_memcmp d32_bytes_inj log_memcmp_def pr_fail_def)
        done
    next
      case False
      have step: "stress_dfp_compare B meth i s =
          stress_dfp_compare B meth (i + 1) (log_memcmp meth i s)"
        using lt assms False
        by (subst stress_dfp_compare.simps)
           (simp add: d32_differ_def d32_memcmp d32_bytes_inj)
      have data: "dfp_data (log_memcmp meth i s) = dfp_data s"
        and cmp: "compared (log_memcmp meth i s) = compared s @ [(meth, i)]"
        by (simp_all add: log_memcmp_def)
      have neq: "memcmp (d32_bytes (d32_r (dfp_data s) i 0))
                   (d32_bytes (d32_r (dfp_data s) i 1)) 4 = 0"
        using False by (simp add: d32_differ_def d32_memcmp d32_bytes_inj)
      note ih = "1.IH" [OF lt _ refl refl refl, unfolded Let_def, simplified neq, simplified, OF assms]
      show ?thesis
      proof (cases "find (d32_differ s) [Suc i..<DFP_ELEMENTS]")
        case None
        then show ?thesis
          using False ih
          by (simp add: step upt data cmp log_memcmp_def del: upt_Suc)
      next
        case (Some k)
        then have "i < k" by (auto simp: find_Some_iff)
        then have "[i..<Suc k] = i # [Suc i..<Suc k]" by (simp add: upt_rec)
        then show ?thesis
          using False ih Some
          by (simp add: step upt data cmp log_memcmp_def pr_fail_def del: upt_Suc)
      qed
    qed
  qed
qed

lemma func_call_pos:
  assumes "0 < method" "method < STRESS_NUM_DFP_FUNCS B"
  shows "\<exists>m f. stress_dfp_func_call B E method idx s =
           Some (stress_dfp_arith E m f idx (log_call method idx s))"
proof -
  from dfp_func_pos [OF assms] obtain m f
    where "dfp_func (stress_dfp_funcs B ! method) = Fn m f" by blast
  with assms show ?thesis
    by (subst stress_dfp_func_call.simps) auto
qed

text \<open>The effect of one workload run on the state.\<close>

lemma arith_fst: "fst (stress_dfp_arith E m f idx s) =
    o_t2 (outcome_of E (tick s)) - o_t1 (outcome_of E (tick s))"
  by (simp add: stress_dfp_arith_def Let_def)

lemma arith_snd:
  "duration (snd (stress_dfp_arith E m f idx s)) = duration s"
  "ops (snd (stress_dfp_arith E m f idx s)) = ops s"
  "fails (snd (stress_dfp_arith E m f idx s)) = fails s"
  "calls (snd (stress_dfp_arith E m f idx s)) = calls s"
  "compared (snd (stress_dfp_arith E m f idx s)) = compared s"
  "tick (snd (stress_dfp_arith E m f idx s)) = Suc (tick s)"
  "continue_flag (snd (stress_dfp_arith E m f idx s)) =
     (continue_flag s \<and> \<not> o_alarm (outcome_of E (tick s)))"
  by (simp_all add: stress_dfp_arith_def Let_def)

lemma log_call_sel:
  "duration (log_call method idx s) = duration s"
  "ops (log_call method idx s) = ops s"
  "fails (log_call method idx s) = fails s"
  "calls (log_call method idx s) = calls s @ [(method, idx)]"
  "compared (log_call method idx s) = compared s"
  "tick (log_call method idx s) = tick s"
  "continue_flag (log_call method idx s) = continue_flag s"
  "dfp_data (log_call method idx s) = dfp_data s"
  by (simp_all add: log_call_def)

lemma accumulate_sel:
  "duration (accumulate method dt s) = (duration s)[method := duration s ! method + dt]"
  "ops (accumulate method dt s) = (ops s)[method := ops s ! method + 524288]"
  "fails (accumulate method dt s) = fails s"
  "calls (accumulate method dt s) = calls s"
  "compared (accumulate method dt s) = compared s"
  "tick (accumulate method dt s) = tick s"
  "continue_flag (accumulate method dt s) = continue_flag s"
  "dfp_data (accumulate method dt s) = dfp_data s"
  by (simp_all add: accumulate_def DFP_ELEMENTS_def LOOPS_PER_CALL_def)

lemma call_method_pos:
  assumes "0 < method" "method < STRESS_NUM_DFP_FUNCS B"
  shows "\<exists>m f. dfp_func (stress_dfp_funcs B ! method) = Fn m f \<and>
    stress_dfp_call_method B E method verify s =
     Some (if verify then
             (if o_t2 (outcome_of E (Suc (tick s))) - o_t1 (outcome_of E (Suc (tick s))) < 0
              then (EXIT_FAILURE, pass1 E method m f s)
              else if \<not> continue_flag (pass1 E method m f s)
              then (EXIT_SUCCESS,
                    accumulate method
                      (o_t2 (outcome_of E (Suc (tick s))) - o_t1 (outcome_of E (Suc (tick s))))
                      (pass1 E method m f s))
              else stress_dfp_compare B method 0
                    (accumulate method
                      (o_t2 (outcome_of E (Suc (tick s))) - o_t1 (outcome_of E (Suc (tick s))))
                      (pass1 E method m f s)))
           else (EXIT_SUCCESS, pass0 E method m f s))"
proof -
  from dfp_func_pos [OF assms] obtain m f
    where mf: "dfp_func (stress_dfp_funcs B ! method) = Fn m f" by blast
  have fc: "\<And>idx s. stress_dfp_func_call B E method idx s =
           Some (stress_dfp_arith E m f idx (log_call method idx s))"
    using assms mf by (subst stress_dfp_func_call.simps) auto
  have t: "tick (log_call method 1 (pass0 E method m f s)) = Suc (tick s)"
    by (simp add: pass0_def log_call_sel accumulate_sel arith_snd)
  show ?thesis
    using assms mf
    apply (intro exI [of _ m] exI [of _ f] conjI)
     apply assumption
    apply (subst stress_dfp_call_method.simps)
    apply (simp add: fc split_beta Let_def pass0_def [symmetric])
    apply (simp add: arith_fst t [unfolded One_nat_def] accumulate_sel pass1_def [unfolded One_nat_def, symmetric])
    done
qed

lemma pass0_sel:
  "duration (pass0 E method m f s) =
     (duration s)[method := duration s ! method +
        (o_t2 (outcome_of E (tick s)) - o_t1 (outcome_of E (tick s)))]"
  "ops (pass0 E method m f s) = (ops s)[method := ops s ! method + 524288]"
  "fails (pass0 E method m f s) = fails s"
  "calls (pass0 E method m f s) = calls s @ [(method, 0)]"
  "compared (pass0 E method m f s) = compared s"
  "tick (pass0 E method m f s) = Suc (tick s)"
  "continue_flag (pass0 E method m f s) =
     (continue_flag s \<and> \<not> o_alarm (outcome_of E (tick s)))"
  by (simp_all add: pass0_def accumulate_sel arith_snd arith_fst log_call_sel)

lemma pass1_sel:
  "duration (pass1 E method m f s) = duration (pass0 E method m f s)"
  "ops (pass1 E method m f s) = ops (pass0 E method m f s)"
  "fails (pass1 E method m f s) = fails s"
  "calls (pass1 E method m f s) = calls s @ [(method, 0), (method, 1)]"
  "compared (pass1 E method m f s) = compared s"
  "tick (pass1 E method m f s) = Suc (Suc (tick s))"
  "continue_flag (pass1 E method m f s) =
     (continue_flag s \<and> \<not> o_alarm (outcome_of E (tick s))
      \<and> \<not> o_alarm (outcome_of E (Suc (tick s))))"
  by (simp_all add: pass1_def arith_snd log_call_sel pass0_sel)

lemma compare_frame:
  "duration (snd (stress_dfp_compare B method i s)) = duration s \<and>
   ops (snd (stress_dfp_compare B method i s)) = ops s \<and>
   calls (snd (stress_dfp_compare B method i s)) = calls s \<and>
   tick (snd (stress_dfp_compare B method i s)) = tick s \<and>
   continue_flag (snd (stress_dfp_compare B method i s)) = continue_flag s \<and>
   dfp_data (snd (stress_dfp_compare B method i s)) = dfp_data s"
proof (induction B "method" i s rule: stress_dfp_compare.induct)
  case (1 B meth i s)
  show ?case
    apply (subst (1 2 3 4 5 6) stress_dfp_compare.simps)
    using 1
    apply (simp add: Let_def log_memcmp_def pr_fail_def)
    done
qed

lemma compare_exempt:
  "\<not> (HAVE_Decimal32 B \<and> dfp_type (stress_dfp_funcs B ! method) = STRESS_DFP_TYPE_DECIMAL32)
   \<Longrightarrow> stress_dfp_compare B method i s = (EXIT_SUCCESS, s)"
  by (subst stress_dfp_compare.simps) auto

lemma call_method_pos_effect:
  assumes "0 < method" "method < STRESS_NUM_DFP_FUNCS B"
  shows "\<exists>rc s'. stress_dfp_call_method B E method verify s = Some (rc, s') \<and>
     calls s' = calls s @ (if verify then [(method, 0), (method, 1)] else [(method, 0)]) \<and>
     length (duration s') = length (duration s) \<and>
     length (ops s') = length (ops s) \<and>
     (\<forall>j. j \<noteq> method \<longrightarrow> duration s' ! j = duration s ! j \<and> ops s' ! j = ops s ! j)"
proof -
  from call_method_pos [OF assms, of E verify s] obtain m f where
    eq: "stress_dfp_call_method B E method verify s =
     Some (if verify then
             (if o_t2 (outcome_of E (Suc (tick s))) - o_t1 (outcome_of E (Suc (tick s))) < 0
              then (EXIT_FAILURE, pass1 E method m f s)
              else if \<not> continue_flag (pass1 E method m f s)
              then (EXIT_SUCCESS,
                    accumulate method
                      (o_t2 (outcome_of E (Suc (tick s))) - o_t1 (outcome_of E (Suc (tick s))))
                      (pass1 E method m f s))
              else stress_dfp_compare B method 0
                    (accumulate method
                      (o_t2 (outcome_of E (Suc (tick s))) - o_t1 (outcome_of E (Suc (tick s))))
                      (pass1 E method m f s)))
           else (EXIT_SUCCESS, pass0 E method m f s))"
    by blast
  show ?thesis
    unfolding eq
    by (cases "stress_dfp_compare B method 0
                    (accumulate method
                      (o_t2 (outcome_of E (Suc (tick s))) - o_t1 (outcome_of E (Suc (tick s))))
                      (pass1 E method m f s))")
       (use compare_frame [of B "method" 0 "accumulate method
                      (o_t2 (outcome_of E (Suc (tick s))) - o_t1 (outcome_of E (Suc (tick s))))
                      (pass1 E method m f s)"] in
        \<open>auto simp: pass0_sel pass1_sel accumulate_sel\<close>)
qed

lemma all_loop_effect:
  assumes "0 < i" "i \<le> STRESS_NUM_DFP_FUNCS B"
  shows "\<exists>ret s' xs k. stress_dfp_all_loop B E v i s = Some (ret, s') \<and>
     calls s' = calls s @ xs \<and> 0 \<notin> fst ` set xs \<and>
     filter (\<lambda>c. snd c = 0) xs = map (\<lambda>m. (m, 0)) [i..<k] \<and>
     k \<le> STRESS_NUM_DFP_FUNCS B \<and>
     (ret = 0 \<and> k = STRESS_NUM_DFP_FUNCS B \<or> ret = - 1 \<and> i < k) \<and>
     length (duration s') = length (duration s) \<and>
     length (ops s') = length (ops s) \<and>
     (\<forall>j<i. duration s' ! j = duration s ! j \<and> ops s' ! j = ops s ! j)"
  using assms
proof (induction "STRESS_NUM_DFP_FUNCS B - i" arbitrary: i s)
  case 0
  then have "i = STRESS_NUM_DFP_FUNCS B" by simp
  then show ?case
    by (subst stress_dfp_all_loop.simps) (auto intro!: exI [of _ "[]"] exI [of _ i])
next
  case (Suc n)
  then have lt: "i < STRESS_NUM_DFP_FUNCS B" and pos: "0 < i" by simp_all
  from call_method_pos_effect [OF pos lt, of E v s] obtain rc s1 where
    cm: "stress_dfp_call_method B E i v s = Some (rc, s1)" and
    c1: "calls s1 = calls s @ (if v then [(i, 0), (i, 1)] else [(i, 0)])" and
    l1: "length (duration s1) = length (duration s)" "length (ops s1) = length (ops s)" and
    f1: "\<forall>j. j \<noteq> i \<longrightarrow> duration s1 ! j = duration s ! j \<and> ops s1 ! j = ops s ! j"
    by blast
  define xs0 where "xs0 = (if v then [(i, 0::nat), (i, 1)] else [(i, 0)])"
  have x0: "calls s1 = calls s @ xs0" "0 \<notin> fst ` set xs0"
    "filter (\<lambda>c. snd c = 0) xs0 = [(i, 0)]"
    using c1 pos by (auto simp: xs0_def)
  show ?case
  proof (cases "rc = EXIT_FAILURE")
    case True
    have al: "stress_dfp_all_loop B E v i s = Some (- 1, s1)"
      using lt cm True by (subst stress_dfp_all_loop.simps) simp
    have "filter (\<lambda>c. snd c = 0) xs0 = map (\<lambda>m. (m, 0)) [i..<Suc i]"
      using x0 by simp
    with al x0 lt l1 f1 show ?thesis
      by (intro exI [of _ "- 1"] exI [of _ s1] exI [of _ xs0] exI [of _ "Suc i"]) auto
  next
    case False
    have "n = STRESS_NUM_DFP_FUNCS B - Suc i" using Suc.hyps(2) by simp
    from Suc.hyps(1) [OF this, of s1] lt obtain ret s' xs k where
      al: "stress_dfp_all_loop B E v (Suc i) s1 = Some (ret, s')" and
      c2: "calls s' = calls s1 @ xs" "0 \<notin> fst ` set xs"
          "filter (\<lambda>c. snd c = 0) xs = map (\<lambda>m. (m, 0)) [Suc i..<k]" and
      k: "k \<le> STRESS_NUM_DFP_FUNCS B"
         "ret = 0 \<and> k = STRESS_NUM_DFP_FUNCS B \<or> ret = - 1 \<and> Suc i < k" and
      l2: "length (duration s') = length (duration s1)" "length (ops s') = length (ops s1)" and
      f2: "\<forall>j<Suc i. duration s' ! j = duration s1 ! j \<and> ops s' ! j = ops s1 ! j"
      by auto
    have ik: "i < k" using k lt by auto
    then have upt: "[i..<k] = i # [Suc i..<k]" by (simp add: upt_rec)
    have al': "stress_dfp_all_loop B E v i s = Some (ret, s')"
      using lt cm False al by (subst stress_dfp_all_loop.simps) simp
    have c3: "calls s' = calls s @ (xs0 @ xs)" "0 \<notin> fst ` set (xs0 @ xs)"
      "filter (\<lambda>c. snd c = 0) (xs0 @ xs) = map (\<lambda>m. (m, 0)) [i..<k]"
      using x0 c2 upt by auto
    have k': "ret = 0 \<and> k = STRESS_NUM_DFP_FUNCS B \<or> ret = - 1 \<and> i < k"
      using k by auto
    have f3: "\<forall>j<i. duration s' ! j = duration s ! j \<and> ops s' ! j = ops s ! j"
      using f1 f2 by auto
    from al' c3 k(1) k' l1 l2 f3 show ?thesis
      by (intro exI [of _ ret] exI [of _ s'] exI [of _ "xs0 @ xs"] exI [of _ k]) simp
  qed
qed

lemma call_method_zero:
  "\<exists>ret s1 xs k.
     stress_dfp_all_loop B E (opt_flags_verify E) 1 (log_call 0 0 s) = Some (ret, s1) \<and>
     stress_dfp_call_method B E 0 verify s = Some (EXIT_SUCCESS, accumulate 0 ret s1) \<and>
     calls s1 = calls s @ (0, 0) # xs \<and> 0 \<notin> fst ` set xs \<and>
     filter (\<lambda>c. snd c = 0) xs = map (\<lambda>m. (m, 0)) [1..<k] \<and>
     k \<le> STRESS_NUM_DFP_FUNCS B \<and>
     (ret = 0 \<and> k = STRESS_NUM_DFP_FUNCS B \<or> ret = - 1 \<and> 1 < k) \<and>
     length (duration s1) = length (duration s) \<and>
     length (ops s1) = length (ops s) \<and>
     duration s1 ! 0 = duration s ! 0 \<and> ops s1 ! 0 = ops s ! 0"
proof -
  have one: "0 < (1::nat)" "1 \<le> STRESS_NUM_DFP_FUNCS B"
    using dfp_num_funcs_pos [of B] by simp_all
  from all_loop_effect [OF one, of E "opt_flags_verify E" "log_call 0 0 s"]
  obtain ret s1 xs k where
    al: "stress_dfp_all_loop B E (opt_flags_verify E) 1 (log_call 0 0 s) = Some (ret, s1)" and
    r: "calls s1 = calls (log_call 0 0 s) @ xs" "0 \<notin> fst ` set xs"
       "filter (\<lambda>c. snd c = 0) xs = map (\<lambda>m. (m, 0)) [1..<k]"
       "k \<le> STRESS_NUM_DFP_FUNCS B"
       "ret = 0 \<and> k = STRESS_NUM_DFP_FUNCS B \<or> ret = - 1 \<and> 1 < k"
       "length (duration s1) = length (duration (log_call 0 0 s))"
       "length (ops s1) = length (ops (log_call 0 0 s))"
       "\<forall>j<1. duration s1 ! j = duration (log_call 0 0 s) ! j \<and>
               ops s1 ! j = ops (log_call 0 0 s) ! j"
    by blast
  have f0: "dfp_func (stress_dfp_funcs B ! 0) = Fn_all"
    by (simp add: stress_dfp_funcs_def dfp_entry_def)
  have fc: "stress_dfp_func_call B E 0 0 s = Some (ret, s1)"
    using al f0 dfp_num_funcs_pos [of B] by (subst stress_dfp_func_call.simps) simp
  have cm: "stress_dfp_call_method B E 0 verify s = Some (EXIT_SUCCESS, accumulate 0 ret s1)"
    by (subst stress_dfp_call_method.simps) (simp add: fc)
  from al cm r show ?thesis
    by (intro exI [of _ ret] exI [of _ s1] exI [of _ xs] exI [of _ k])
       (simp add: log_call_sel)
qed

lemma all_loop_each:
  "stress_dfp_all_loop B E v i s = dfp_call_each B E v [i..<STRESS_NUM_DFP_FUNCS B] s"
proof (induction "STRESS_NUM_DFP_FUNCS B - i" arbitrary: i s)
  case 0
  then show ?case by (subst stress_dfp_all_loop.simps) simp
next
  case (Suc n)
  then have lt: "i < STRESS_NUM_DFP_FUNCS B" by simp
  have n: "n = STRESS_NUM_DFP_FUNCS B - (i + 1)" using Suc.hyps(2) by simp
  show ?case
    using lt Suc.hyps(1) [OF n]
    by (subst stress_dfp_all_loop.simps)
       (simp add: upt_rec [of i] split: option.splits)
qed

lemma call_method_pos_cases:
  assumes "0 < method" "method < STRESS_NUM_DFP_FUNCS B"
  obtains m f where
    "verify \<Longrightarrow> o_t1 (outcome_of E (Suc (tick s))) \<le> o_t2 (outcome_of E (Suc (tick s)))
     \<Longrightarrow> \<not> continue_flag (pass1 E method m f s)
     \<Longrightarrow> stress_dfp_call_method B E method verify s =
         Some (EXIT_SUCCESS,
               accumulate method
                 (o_t2 (outcome_of E (Suc (tick s))) - o_t1 (outcome_of E (Suc (tick s))))
                 (pass1 E method m f s))"
    "verify \<Longrightarrow> o_t1 (outcome_of E (Suc (tick s))) \<le> o_t2 (outcome_of E (Suc (tick s)))
     \<Longrightarrow> continue_flag (pass1 E method m f s)
     \<Longrightarrow> stress_dfp_call_method B E method verify s =
         Some (stress_dfp_compare B method 0
                (accumulate method
                  (o_t2 (outcome_of E (Suc (tick s))) - o_t1 (outcome_of E (Suc (tick s))))
                  (pass1 E method m f s)))"
    "\<not> verify \<Longrightarrow> stress_dfp_call_method B E method verify s =
         Some (EXIT_SUCCESS, pass0 E method m f s)"
proof -
  from call_method_pos [OF assms, of E verify s] obtain m f where
    "stress_dfp_call_method B E method verify s =
     Some (if verify then
             (if o_t2 (outcome_of E (Suc (tick s))) - o_t1 (outcome_of E (Suc (tick s))) < 0
              then (EXIT_FAILURE, pass1 E method m f s)
              else if \<not> continue_flag (pass1 E method m f s)
              then (EXIT_SUCCESS,
                    accumulate method
                      (o_t2 (outcome_of E (Suc (tick s))) - o_t1 (outcome_of E (Suc (tick s))))
                      (pass1 E method m f s))
              else stress_dfp_compare B method 0
                    (accumulate method
                      (o_t2 (outcome_of E (Suc (tick s))) - o_t1 (outcome_of E (Suc (tick s))))
                      (pass1 E method m f s)))
           else (EXIT_SUCCESS, pass0 E method m f s))"
    by blast
  then show ?thesis
    by (intro that [of m f]) (simp_all add: not_less [symmetric])
qed

lemmas dfp_eval =
  stress_dfp_call_method.simps stress_dfp_func_call.simps stress_dfp_compare.simps
  stress_dfp_all_loop.simps dfp_build_all_def dfp_outcome_1_def dfp_init_def
  STRESS_NUM_DFP_FUNCS_def stress_dfp_funcs_def dfp_entry_def log_call_def
  stress_dfp_arith_def Let_def accumulate_def dfp_store_def write_r_def DFP_ELEMENTS_def
  LOOPS_PER_CALL_def pr_fail_def log_memcmp_def d32_memcmp stress_dfp_type_def
  dfp_type_map_def monotonic_clock_def

lemma dfp_type_all_first: "dfp_type (stress_dfp_funcs B ! 0) = STRESS_DFP_TYPE_ALL"
  by (simp add: stress_dfp_funcs_def dfp_entry_def)

lemma d32_differ_data: "dfp_data a = dfp_data b \<Longrightarrow> d32_differ a = d32_differ b"
  by (simp add: d32_differ_def fun_eq_iff)

lemma d32_differ_upd:
  "d32_differ (s\<lparr>compared := c\<rparr>) = d32_differ s"
  "d32_differ (pr_fail B meth k a b s) = d32_differ s"
  by (simp_all add: d32_differ_def pr_fail_def fun_eq_iff)

lemma dfp_report_eq:
  "stress_dfp_report B i s =
     map (\<lambda>j. \<lparr>m_idx = j - 1,
                m_desc = dfp_metric_msg (dfp_description (stress_dfp_funcs B ! j)),
                m_value = (ops s ! j / duration s ! j) / 1000000,
                m_kind = Some HARMONIC_MEAN\<rparr>)
       (filter (\<lambda>j. duration s ! j > 0 \<and> ops s ! j > 0) [i..<STRESS_NUM_DFP_FUNCS B])"
proof (induction "STRESS_NUM_DFP_FUNCS B - i" arbitrary: i)
  case 0
  then show ?case by (subst stress_dfp_report.simps) simp
next
  case (Suc n)
  then have lt: "i < STRESS_NUM_DFP_FUNCS B" by simp
  have n: "n = STRESS_NUM_DFP_FUNCS B - (i + 1)" using Suc.hyps(2) by simp
  show ?case
    using lt Suc.hyps(1) [OF n]
    by (subst stress_dfp_report.simps) (simp add: upt_rec [of i])
qed

lemma dfp_report_ignores_all:
  "stress_dfp_report B 1 (s\<lparr>duration := (duration s)[0 := d], ops := (ops s)[0 := p]\<rparr>) =
   stress_dfp_report B 1 s"
proof -
  have "\<And>j. j \<in> set [1..<STRESS_NUM_DFP_FUNCS B] \<Longrightarrow>
      (duration s)[0 := d] ! j = duration s ! j \<and> (ops s)[0 := p] ! j = ops s ! j"
    by simp
  then show ?thesis
    unfolding dfp_report_eq
    by (auto cong: filter_cong map_cong simp: filter_map comp_def intro!: map_cong filter_cong)
qed

section \<open>The claims about the decimal floating point harness\<close>

text \<open>
  C3. For a method index of the table and a monotonic clock, the call returns, the
  call into result slot 1 is made exactly when verify is on and the method is not "all"
  (index 0), and when the continue flag is clear after that second pass the call returns
  \<^verbatim>\<open>EXIT_SUCCESS\<close> with no \<^verbatim>\<open>memcmp\<close> made and no failure printed.
\<close>

theorem dfp_second_pass_and_interrupted_skip:
  assumes "method < STRESS_NUM_DFP_FUNCS B" and "monotonic_clock E"
  shows "\<exists>rc s' xs. stress_dfp_call_method B E method verify s = Some (rc, s') \<and>
     calls s' = calls s @ xs \<and>
     ((method, 1) \<in> set xs) = (verify \<and> method \<noteq> 0) \<and>
     (verify \<and> method \<noteq> 0 \<and> \<not> continue_flag s' \<longrightarrow>
        rc = EXIT_SUCCESS \<and> fails s' = fails s \<and> compared s' = compared s)"
proof (cases "method = 0")
  case True
  from call_method_zero [of B E s verify] obtain ret s1 xs where
    cm: "stress_dfp_call_method B E 0 verify s = Some (EXIT_SUCCESS, accumulate 0 ret s1)" and
    c: "calls s1 = calls s @ (0, 0) # xs" "0 \<notin> fst ` set xs"
    by blast
  have "(0, 1) \<notin> set ((0, 0) # xs)" using c(2) by force
  with cm c True show ?thesis
    by (intro exI [of _ EXIT_SUCCESS] exI [of _ "accumulate 0 ret s1"] exI [of _ "(0, 0) # xs"])
       (simp add: accumulate_sel)
next
  case False
  then have pos: "0 < method" by simp
  have mono: "o_t1 (outcome_of E (Suc (tick s))) \<le> o_t2 (outcome_of E (Suc (tick s)))"
    using assms(2) by (simp add: monotonic_clock_def)
  from call_method_pos_cases [OF pos assms(1), of verify E s] obtain m f where
    a: "verify \<Longrightarrow> o_t1 (outcome_of E (Suc (tick s))) \<le> o_t2 (outcome_of E (Suc (tick s)))
     \<Longrightarrow> \<not> continue_flag (pass1 E method m f s)
     \<Longrightarrow> stress_dfp_call_method B E method verify s =
         Some (EXIT_SUCCESS,
               accumulate method
                 (o_t2 (outcome_of E (Suc (tick s))) - o_t1 (outcome_of E (Suc (tick s))))
                 (pass1 E method m f s))" and
    b: "verify \<Longrightarrow> o_t1 (outcome_of E (Suc (tick s))) \<le> o_t2 (outcome_of E (Suc (tick s)))
     \<Longrightarrow> continue_flag (pass1 E method m f s)
     \<Longrightarrow> stress_dfp_call_method B E method verify s =
         Some (stress_dfp_compare B method 0
                (accumulate method
                  (o_t2 (outcome_of E (Suc (tick s))) - o_t1 (outcome_of E (Suc (tick s))))
                  (pass1 E method m f s)))" and
    c: "\<not> verify \<Longrightarrow> stress_dfp_call_method B E method verify s =
         Some (EXIT_SUCCESS, pass0 E method m f s)"
    by blast
  let ?s4 = "accumulate method
                 (o_t2 (outcome_of E (Suc (tick s))) - o_t1 (outcome_of E (Suc (tick s))))
                 (pass1 E method m f s)"
  consider (off) "\<not> verify" | (stopped) "verify" "\<not> continue_flag (pass1 E method m f s)"
    | (going) "verify" "continue_flag (pass1 E method m f s)"
    by blast
  then show ?thesis
  proof cases
    case off
    with c False show ?thesis
      by (intro exI [of _ EXIT_SUCCESS] exI [of _ "pass0 E method m f s"]
                exI [of _ "[(method, 0)]"]) (simp add: pass0_sel)
  next
    case stopped
    with a mono False show ?thesis
      by (intro exI [of _ EXIT_SUCCESS] exI [of _ ?s4]
                exI [of _ "[(method, 0), (method, 1)]"]) (simp add: pass1_sel accumulate_sel)
  next
    case going
    obtain rc s' where cmp: "stress_dfp_compare B method 0 ?s4 = (rc, s')"
      by (cases "stress_dfp_compare B method 0 ?s4")
    from compare_frame [of B "method" 0 ?s4] cmp going
    have "calls s' = calls s @ [(method, 0), (method, 1)]" "continue_flag s'"
      by (simp_all add: accumulate_sel pass1_sel)
    with b [OF going(1) mono going(2)] cmp going False show ?thesis
      by (intro exI [of _ rc] exI [of _ s'] exI [of _ "[(method, 0), (method, 1)]"]) simp
  qed
qed

theorem dfp_second_pass_and_interrupted_skip_witness:
  "1 < STRESS_NUM_DFP_FUNCS dfp_build_all \<and> monotonic_clock dfp_env_alarm_second \<and>
   (\<exists>rc s' xs.
      stress_dfp_call_method dfp_build_all dfp_env_alarm_second 1 True
        (dfp_init dfp_build_all (\<lambda>i. 0)) = Some (rc, s') \<and>
      calls s' = calls (dfp_init dfp_build_all (\<lambda>i. 0)) @ xs \<and>
      (1, 1) \<in> set xs \<and> \<not> continue_flag s' \<and>
      rc = EXIT_SUCCESS \<and> fails s' = [] \<and> compared s' = [])"
proof -
  let ?s = "dfp_init dfp_build_all (\<lambda>i. 0)"
  have h: "1 < STRESS_NUM_DFP_FUNCS dfp_build_all" "monotonic_clock dfp_env_alarm_second"
    by (simp_all add: dfp_eval dfp_env_alarm_second_def)
  have ev: "(case stress_dfp_call_method dfp_build_all dfp_env_alarm_second 1 True ?s of
               None \<Rightarrow> True | Some (rc, s') \<Rightarrow> continue_flag s') = False"
    by (simp add: dfp_eval dfp_env_alarm_second_def)
  have e: "fails ?s = []" "compared ?s = []" by (simp_all add: dfp_init_def)
  from dfp_second_pass_and_interrupted_skip [OF h, of True ?s] obtain rc s' xs where
    r: "stress_dfp_call_method dfp_build_all dfp_env_alarm_second 1 True ?s = Some (rc, s')"
       "calls s' = calls ?s @ xs" "((1, 1) \<in> set xs) = (True \<and> (1::nat) \<noteq> 0)"
       "True \<and> (1::nat) \<noteq> 0 \<and> \<not> continue_flag s' \<longrightarrow>
          rc = EXIT_SUCCESS \<and> fails s' = fails ?s \<and> compared s' = compared ?s"
    by blast
  from ev r(1) have "\<not> continue_flag s'" by simp
  with r e h show ?thesis by auto
qed

text \<open>
  C4. A method of the table whose type is not \<^verbatim>\<open>STRESS_DFP_TYPE_DECIMAL32\<close> (a
  \<^verbatim>\<open>_Decimal64\<close> or \<^verbatim>\<open>_Decimal128\<close> method, or "all") returns \<^verbatim>\<open>EXIT_SUCCESS\<close> from every call,
  verified or not, whatever the workload left in the result slots; a method other than
  "all" does so without any \<^verbatim>\<open>memcmp\<close> and without printing a failure.
\<close>

theorem dfp_uncompared_types_always_succeed:
  assumes "method < STRESS_NUM_DFP_FUNCS B"
    and "dfp_type (stress_dfp_funcs B ! method) \<noteq> STRESS_DFP_TYPE_DECIMAL32"
    and "monotonic_clock E"
  shows "\<exists>s'. stress_dfp_call_method B E method verify s = Some (EXIT_SUCCESS, s') \<and>
     (0 < method \<longrightarrow> fails s' = fails s \<and> compared s' = compared s)"
proof (cases "method = 0")
  case True
  from call_method_zero [of B E s verify] True show ?thesis by auto
next
  case False
  then have pos: "0 < method" by simp
  have mono: "o_t1 (outcome_of E (Suc (tick s))) \<le> o_t2 (outcome_of E (Suc (tick s)))"
    using assms(3) by (simp add: monotonic_clock_def)
  from call_method_pos_cases [OF pos assms(1), of verify E s] obtain m f where
    a: "verify \<Longrightarrow> o_t1 (outcome_of E (Suc (tick s))) \<le> o_t2 (outcome_of E (Suc (tick s)))
     \<Longrightarrow> \<not> continue_flag (pass1 E method m f s)
     \<Longrightarrow> stress_dfp_call_method B E method verify s =
         Some (EXIT_SUCCESS,
               accumulate method
                 (o_t2 (outcome_of E (Suc (tick s))) - o_t1 (outcome_of E (Suc (tick s))))
                 (pass1 E method m f s))" and
    b: "verify \<Longrightarrow> o_t1 (outcome_of E (Suc (tick s))) \<le> o_t2 (outcome_of E (Suc (tick s)))
     \<Longrightarrow> continue_flag (pass1 E method m f s)
     \<Longrightarrow> stress_dfp_call_method B E method verify s =
         Some (stress_dfp_compare B method 0
                (accumulate method
                  (o_t2 (outcome_of E (Suc (tick s))) - o_t1 (outcome_of E (Suc (tick s))))
                  (pass1 E method m f s)))" and
    c: "\<not> verify \<Longrightarrow> stress_dfp_call_method B E method verify s =
         Some (EXIT_SUCCESS, pass0 E method m f s)"
    by blast
  have ex: "\<And>s. stress_dfp_compare B method 0 s = (EXIT_SUCCESS, s)"
    using assms(2) by (intro compare_exempt) simp
  consider (off) "\<not> verify" | (stopped) "verify" "\<not> continue_flag (pass1 E method m f s)"
    | (going) "verify" "continue_flag (pass1 E method m f s)"
    by blast
  then show ?thesis
  proof cases
    case off
    with c show ?thesis by (simp add: pass0_sel)
  next
    case stopped
    with a mono show ?thesis by (simp add: pass1_sel accumulate_sel)
  next
    case going
    with b mono ex show ?thesis by (simp add: pass1_sel accumulate_sel)
  qed
qed

theorem dfp_uncompared_types_always_succeed_witness:
  "2 < STRESS_NUM_DFP_FUNCS dfp_build_all \<and>
   dfp_type (stress_dfp_funcs dfp_build_all ! 2) = STRESS_DFP_TYPE_DECIMAL64 \<and>
   monotonic_clock dfp_env_mismatch \<and>
   (\<exists>s'. stress_dfp_call_method dfp_build_all dfp_env_mismatch 2 True
            (dfp_init dfp_build_all (\<lambda>i. 0)) = Some (EXIT_SUCCESS, s') \<and>
         fails s' = [] \<and> compared s' = [])"
proof -
  let ?s = "dfp_init dfp_build_all (\<lambda>i. 0)"
  have h: "2 < STRESS_NUM_DFP_FUNCS dfp_build_all"
    "dfp_type (stress_dfp_funcs dfp_build_all ! 2) = STRESS_DFP_TYPE_DECIMAL64"
    "monotonic_clock dfp_env_mismatch"
    by (simp_all add: dfp_eval dfp_env_mismatch_def)
  have e: "fails ?s = []" "compared ?s = []" by (simp_all add: dfp_init_def)
  from h(2) have ne: "dfp_type (stress_dfp_funcs dfp_build_all ! 2) \<noteq> STRESS_DFP_TYPE_DECIMAL32"
    by simp
  from dfp_uncompared_types_always_succeed [OF h(1) ne h(3), of True ?s] e h
  show ?thesis by auto
qed

text \<open>
  C5. For a \<^verbatim>\<open>_Decimal32\<close> method called with verify on (monotonic clock), the call returns;
  when the continue flag is still set after the second pass, the elements are compared
  byte for byte in index order up to the first that differs: with no differing element all
  \<^verbatim>\<open>DFP_ELEMENTS\<close> are compared and the call returns \<^verbatim>\<open>EXIT_SUCCESS\<close> printing nothing; with a
  first differing element k, elements 0..k are compared, one failure line with k and the
  two values of element k is printed, and the call returns \<^verbatim>\<open>EXIT_FAILURE\<close>. So success is
  returned exactly when all elements have identical bytes in the two slots.
\<close>

theorem dfp_decimal32_compared_bytewise:
  assumes "method < STRESS_NUM_DFP_FUNCS B"
    and "dfp_type (stress_dfp_funcs B ! method) = STRESS_DFP_TYPE_DECIMAL32"
    and "monotonic_clock E"
  shows "\<exists>rc s'. stress_dfp_call_method B E method True s = Some (rc, s') \<and>
     (continue_flag s' \<longrightarrow>
        ((rc = EXIT_SUCCESS) = (\<forall>i<DFP_ELEMENTS. \<not> d32_differ s' i)) \<and>
        (case find (d32_differ s') [0..<DFP_ELEMENTS] of
           None \<Rightarrow>
             rc = EXIT_SUCCESS \<and> fails s' = fails s \<and>
             compared s' = compared s @ map (Pair method) [0..<DFP_ELEMENTS]
         | Some k \<Rightarrow>
             rc = EXIT_FAILURE \<and> d32_differ s' k \<and> (\<forall>j<k. \<not> d32_differ s' j) \<and>
             fails s' = fails s @
               [\<lparr>fail_description = ''_Decimal32'',
                 fail_method_name = dfp_name (stress_dfp_funcs B ! method),
                 fail_element = k,
                 fail_got = d32_r (dfp_data s') k 0,
                 fail_expected = d32_r (dfp_data s') k 1\<rparr>] \<and>
             compared s' = compared s @ map (Pair method) [0..<Suc k]))"
proof -
  have pos: "0 < method"
    using assms(2) dfp_type_all_first [of B] by (cases "method = 0") auto
  have have32: "HAVE_Decimal32 B"
    using assms(1,2) by (rule dfp_decimal32_built)
  have mono: "o_t1 (outcome_of E (Suc (tick s))) \<le> o_t2 (outcome_of E (Suc (tick s)))"
    using assms(3) by (simp add: monotonic_clock_def)
  from call_method_pos_cases [OF pos assms(1), of True E s] obtain m f where
    a: "True \<Longrightarrow> o_t1 (outcome_of E (Suc (tick s))) \<le> o_t2 (outcome_of E (Suc (tick s)))
     \<Longrightarrow> \<not> continue_flag (pass1 E method m f s)
     \<Longrightarrow> stress_dfp_call_method B E method True s =
         Some (EXIT_SUCCESS,
               accumulate method
                 (o_t2 (outcome_of E (Suc (tick s))) - o_t1 (outcome_of E (Suc (tick s))))
                 (pass1 E method m f s))" and
    b: "True \<Longrightarrow> o_t1 (outcome_of E (Suc (tick s))) \<le> o_t2 (outcome_of E (Suc (tick s)))
     \<Longrightarrow> continue_flag (pass1 E method m f s)
     \<Longrightarrow> stress_dfp_call_method B E method True s =
         Some (stress_dfp_compare B method 0
                (accumulate method
                  (o_t2 (outcome_of E (Suc (tick s))) - o_t1 (outcome_of E (Suc (tick s))))
                  (pass1 E method m f s)))"
    by blast
  let ?s4 = "accumulate method
                 (o_t2 (outcome_of E (Suc (tick s))) - o_t1 (outcome_of E (Suc (tick s))))
                 (pass1 E method m f s)"
  show ?thesis
  proof (cases "continue_flag (pass1 E method m f s)")
    case False
    with a mono show ?thesis by (simp add: accumulate_sel)
  next
    case True
    note cf = compare_find [OF have32 assms(2), of 0 ?s4]
    have s4: "fails ?s4 = fails s" "compared ?s4 = compared s"
      by (simp_all add: accumulate_sel pass1_sel)
    have desc: "stress_dfp_type STRESS_DFP_TYPE_DECIMAL32 = ''_Decimal32''"
      by (simp add: stress_dfp_type_def dfp_type_map_def)
    show ?thesis
    proof (cases "find (d32_differ ?s4) [0..<DFP_ELEMENTS]")
      case None
      let ?s' = "?s4\<lparr>compared := compared ?s4 @ map (Pair method) [0..<DFP_ELEMENTS]\<rparr>"
      have eq: "stress_dfp_call_method B E method True s = Some (EXIT_SUCCESS, ?s')"
        using b [OF TrueI mono True] cf None by simp
      have d: "d32_differ ?s' = d32_differ ?s4" by (rule d32_differ_data) simp
      have all: "\<forall>i<DFP_ELEMENTS. \<not> d32_differ ?s4 i"
        using None by (auto simp: find_None_iff)
      show ?thesis
        using eq None all s4 by (simp add: d32_differ_upd del: upt_Suc)
    next
      case (Some k)
      let ?s' = "pr_fail B method k (d32_r (dfp_data ?s4) k 0) (d32_r (dfp_data ?s4) k 1)
            (?s4\<lparr>compared := compared ?s4 @ map (Pair method) [0..<Suc k]\<rparr>)"
      have eq: "stress_dfp_call_method B E method True s = Some (EXIT_FAILURE, ?s')"
        using b [OF TrueI mono True] cf Some by simp
      have dat: "dfp_data ?s' = dfp_data ?s4" by (simp add: pr_fail_def)
      have d: "d32_differ ?s' = d32_differ ?s4" using dat by (rule d32_differ_data)
      have k: "k < DFP_ELEMENTS" "d32_differ ?s4 k" "\<forall>j<k. \<not> d32_differ ?s4 j"
        using Some by (auto simp: find_Some_iff)
      have ex: "\<not> (\<forall>i<DFP_ELEMENTS. \<not> d32_differ ?s4 i)" using k by blast
      have fl: "fails ?s' = fails s @
               [\<lparr>fail_description = ''_Decimal32'',
                 fail_method_name = dfp_name (stress_dfp_funcs B ! method),
                 fail_element = k,
                 fail_got = d32_r (dfp_data ?s') k 0,
                 fail_expected = d32_r (dfp_data ?s') k 1\<rparr>]"
        unfolding dat using s4 assms(2) desc by (simp add: pr_fail_def)
      have cp: "compared ?s' = compared s @ map (Pair method) [0..<Suc k]"
        using s4 by (simp add: pr_fail_def)
      show ?thesis
        unfolding eq
        apply (intro exI [of _ EXIT_FAILURE] exI [of _ ?s'] conjI refl impI)
         apply (simp only: d, use ex in simp)
        apply (simp only: d Some option.case)
        apply (intro conjI refl k fl cp)
        done
    qed
  qed
qed

theorem dfp_decimal32_compared_bytewise_witness:
  "1 < STRESS_NUM_DFP_FUNCS dfp_build_all \<and>
   dfp_type (stress_dfp_funcs dfp_build_all ! 1) = STRESS_DFP_TYPE_DECIMAL32 \<and>
   monotonic_clock dfp_env_mismatch \<and>
   (\<exists>rc s'. stress_dfp_call_method dfp_build_all dfp_env_mismatch 1 True
               (dfp_init dfp_build_all (\<lambda>i. 0)) = Some (rc, s') \<and>
      continue_flag s' \<and> find (d32_differ s') [0..<DFP_ELEMENTS] = Some 3 \<and>
      rc = EXIT_FAILURE \<and>
      fails s' = [\<lparr>fail_description = ''_Decimal32'', fail_method_name = ''df32add'',
                   fail_element = 3, fail_got = 5, fail_expected = 6\<rparr>] \<and>
      compared s' = [(1, 0), (1, 1), (1, 2), (1, 3)])"
proof -
  let ?s = "dfp_init dfp_build_all (\<lambda>i. 0)"
  have h: "1 < STRESS_NUM_DFP_FUNCS dfp_build_all"
    "dfp_type (stress_dfp_funcs dfp_build_all ! 1) = STRESS_DFP_TYPE_DECIMAL32"
    "monotonic_clock dfp_env_mismatch"
    by (simp_all add: dfp_eval dfp_env_mismatch_def)
  have ev: "(case stress_dfp_call_method dfp_build_all dfp_env_mismatch 1 True ?s of
               None \<Rightarrow> None
             | Some (rc, s') \<Rightarrow>
                 Some (rc, continue_flag s', fails s', compared s',
                       find (d32_differ s') [0..<DFP_ELEMENTS])) =
            Some (EXIT_FAILURE, True,
              [\<lparr>fail_description = ''_Decimal32'', fail_method_name = ''df32add'',
                   fail_element = 3, fail_got = 5, fail_expected = 6\<rparr>],
              [(1, 0), (1, 1), (1, 2), (1, 3)], Some 3)"
    by (simp add: dfp_eval dfp_env_mismatch_def d32_differ_def d32_bytes_inj upt_rec)
  from dfp_decimal32_compared_bytewise [OF h, of ?s] obtain rc s' where
    r: "stress_dfp_call_method dfp_build_all dfp_env_mismatch 1 True ?s = Some (rc, s')"
    by blast
  from ev r h show ?thesis by simp
qed

text \<open>
  C1 (a defect of the code). The first pass of \<^verbatim>\<open>stress_dfp_call_method\<close> adds whatever the
  function returns: at method 0 with verify on, when a \<^verbatim>\<open>_Decimal32\<close> method finds a
  mismatch, \<^verbatim>\<open>stress_dfp_all\<close> returns the sentinel -1.0, and the call adds -1.0 to the
  duration and \<^verbatim>\<open>DFP_ELEMENTS * LOOPS_PER_CALL\<close> to the ops of entry 0 (both 0 before), and
  returns \<^verbatim>\<open>EXIT_SUCCESS\<close>. The second pass has the check \<^verbatim>\<open>dt < 0.0\<close> that the first lacks.
\<close>

theorem dfp_first_pass_accumulates_sentinel:
  "(case stress_dfp_func_call dfp_build_all dfp_env_mismatch 0 0
           (dfp_init dfp_build_all (\<lambda>i. 0)) of
      None \<Rightarrow> None | Some (dt, s1) \<Rightarrow> Some dt) = Some (- 1) \<and>
   duration (dfp_init dfp_build_all (\<lambda>i. 0)) ! 0 = 0 \<and>
   ops (dfp_init dfp_build_all (\<lambda>i. 0)) ! 0 = 0 \<and>
   (case stress_dfp_call_method dfp_build_all dfp_env_mismatch 0 True
           (dfp_init dfp_build_all (\<lambda>i. 0)) of
      None \<Rightarrow> None
    | Some (rc, s') \<Rightarrow> Some (rc, duration s' ! 0, ops s' ! 0)) =
     Some (EXIT_SUCCESS, - 1, 524288)"
  by (simp add: dfp_eval dfp_env_mismatch_def)

text \<open>
  C10. Every call of \<^verbatim>\<open>stress_dfp_call_method\<close> at an index of the table adds the duration
  its first pass returned and the fixed op count to the counters of that index (and those of
  an accumulated second pass, if any); at index 0 the duration added is the return value of
  \<^verbatim>\<open>stress_dfp_all\<close>, 0.0 or the sentinel -1.0. The report loop starts at index 1: each
  metric it sets belongs to an index 1..N-1, whose function is not \<^verbatim>\<open>stress_dfp_all\<close>, and
  the report is the same whatever the counters of entry 0 hold.
\<close>

theorem dfp_all_entry_accumulates_unreported:
  assumes "method < STRESS_NUM_DFP_FUNCS B"
    and "length (duration s) = STRESS_NUM_DFP_FUNCS B"
    and "length (ops s) = STRESS_NUM_DFP_FUNCS B"
  shows "(\<exists>dt s1 rc s'.
      stress_dfp_func_call B E method 0 s = Some (dt, s1) \<and>
      stress_dfp_call_method B E method verify s = Some (rc, s') \<and>
      (duration s' ! method = duration s ! method + dt \<and>
       ops s' ! method = ops s ! method + real (DFP_ELEMENTS * LOOPS_PER_CALL)
       \<or> (\<exists>dt2. 0 < method \<and> verify \<and>
             duration s' ! method = duration s ! method + dt + dt2 \<and>
             ops s' ! method = ops s ! method + 2 * real (DFP_ELEMENTS * LOOPS_PER_CALL))) \<and>
      (method = 0 \<longrightarrow> (dt = 0 \<or> dt = - 1) \<and> rc = EXIT_SUCCESS \<and>
         duration s' ! 0 = duration s ! 0 + dt \<and>
         ops s' ! 0 = ops s ! 0 + real (DFP_ELEMENTS * LOOPS_PER_CALL))) \<and>
    (\<forall>x \<in> set (stress_dfp_report B 1 t).
       \<exists>i. 0 < i \<and> i < STRESS_NUM_DFP_FUNCS B \<and>
           dfp_func (stress_dfp_funcs B ! i) \<noteq> Fn_all \<and>
           m_idx x = i - 1 \<and>
           m_desc x = dfp_metric_msg (dfp_description (stress_dfp_funcs B ! i)) \<and>
           m_value x = (ops t ! i / duration t ! i) / 1000000) \<and>
    stress_dfp_report B 1 (t\<lparr>duration := (duration t)[0 := d], ops := (ops t)[0 := p]\<rparr>) =
      stress_dfp_report B 1 t"
proof (intro conjI)
  show "stress_dfp_report B 1 (t\<lparr>duration := (duration t)[0 := d], ops := (ops t)[0 := p]\<rparr>) =
      stress_dfp_report B 1 t"
    by (rule dfp_report_ignores_all)
next
  show "\<forall>x \<in> set (stress_dfp_report B 1 t).
       \<exists>i. 0 < i \<and> i < STRESS_NUM_DFP_FUNCS B \<and>
           dfp_func (stress_dfp_funcs B ! i) \<noteq> Fn_all \<and>
           m_idx x = i - 1 \<and>
           m_desc x = dfp_metric_msg (dfp_description (stress_dfp_funcs B ! i)) \<and>
           m_value x = (ops t ! i / duration t ! i) / 1000000"
  proof
    fix x assume "x \<in> set (stress_dfp_report B 1 t)"
    then obtain i where i: "1 \<le> i" "i < STRESS_NUM_DFP_FUNCS B"
      and x: "x = \<lparr>m_idx = i - 1,
                m_desc = dfp_metric_msg (dfp_description (stress_dfp_funcs B ! i)),
                m_value = (ops t ! i / duration t ! i) / 1000000,
                m_kind = Some HARMONIC_MEAN\<rparr>"
      unfolding dfp_report_eq by auto
    from i dfp_all_only_first [of i B] have "dfp_func (stress_dfp_funcs B ! i) \<noteq> Fn_all"
      by auto
    with i x show "\<exists>i. 0 < i \<and> i < STRESS_NUM_DFP_FUNCS B \<and>
           dfp_func (stress_dfp_funcs B ! i) \<noteq> Fn_all \<and>
           m_idx x = i - 1 \<and>
           m_desc x = dfp_metric_msg (dfp_description (stress_dfp_funcs B ! i)) \<and>
           m_value x = (ops t ! i / duration t ! i) / 1000000"
      by (intro exI [of _ i]) simp
  qed
next
  have c: "real (DFP_ELEMENTS * LOOPS_PER_CALL) = 524288"
    "real DFP_ELEMENTS * real LOOPS_PER_CALL = 524288"
    by (simp_all add: DFP_ELEMENTS_def LOOPS_PER_CALL_def)
  show "\<exists>dt s1 rc s'.
      stress_dfp_func_call B E method 0 s = Some (dt, s1) \<and>
      stress_dfp_call_method B E method verify s = Some (rc, s') \<and>
      (duration s' ! method = duration s ! method + dt \<and>
       ops s' ! method = ops s ! method + real (DFP_ELEMENTS * LOOPS_PER_CALL)
       \<or> (\<exists>dt2. 0 < method \<and> verify \<and>
             duration s' ! method = duration s ! method + dt + dt2 \<and>
             ops s' ! method = ops s ! method + 2 * real (DFP_ELEMENTS * LOOPS_PER_CALL))) \<and>
      (method = 0 \<longrightarrow> (dt = 0 \<or> dt = - 1) \<and> rc = EXIT_SUCCESS \<and>
         duration s' ! 0 = duration s ! 0 + dt \<and>
         ops s' ! 0 = ops s ! 0 + real (DFP_ELEMENTS * LOOPS_PER_CALL))"
  proof (cases "method = 0")
    case True
    from call_method_zero [of B E s verify] obtain ret s1 where
      al: "stress_dfp_all_loop B E (opt_flags_verify E) 1 (log_call 0 0 s) = Some (ret, s1)" and
      cm: "stress_dfp_call_method B E 0 verify s = Some (EXIT_SUCCESS, accumulate 0 ret s1)" and
      r: "ret = 0 \<or> ret = - 1" and
      l: "length (duration s1) = length (duration s)" "length (ops s1) = length (ops s)" and
      z: "duration s1 ! 0 = duration s ! 0" "ops s1 ! 0 = ops s ! 0"
      by blast
    have f0: "dfp_func (stress_dfp_funcs B ! 0) = Fn_all"
      by (simp add: stress_dfp_funcs_def dfp_entry_def)
    have fc: "stress_dfp_func_call B E 0 0 s = Some (ret, s1)"
      using al f0 dfp_num_funcs_pos [of B] by (subst stress_dfp_func_call.simps) simp
    have pos: "0 < length (duration s1)" "0 < length (ops s1)"
      using l assms dfp_num_funcs_pos [of B] by simp_all
    from fc cm r z pos True show ?thesis
      by (rule_tac exI [of _ ret], rule_tac exI [of _ s1], rule_tac exI [of _ EXIT_SUCCESS],
          rule_tac exI [of _ "accumulate 0 ret s1"]) (simp add: accumulate_sel c)
  next
    case False
    then have pos: "0 < method" by simp
    from call_method_pos [OF pos assms(1), of E verify s] obtain m f where
      mf: "dfp_func (stress_dfp_funcs B ! method) = Fn m f" and
      eq: "stress_dfp_call_method B E method verify s =
       Some (if verify then
             (if o_t2 (outcome_of E (Suc (tick s))) - o_t1 (outcome_of E (Suc (tick s))) < 0
              then (EXIT_FAILURE, pass1 E method m f s)
              else if \<not> continue_flag (pass1 E method m f s)
              then (EXIT_SUCCESS,
                    accumulate method
                      (o_t2 (outcome_of E (Suc (tick s))) - o_t1 (outcome_of E (Suc (tick s))))
                      (pass1 E method m f s))
              else stress_dfp_compare B method 0
                    (accumulate method
                      (o_t2 (outcome_of E (Suc (tick s))) - o_t1 (outcome_of E (Suc (tick s))))
                      (pass1 E method m f s)))
           else (EXIT_SUCCESS, pass0 E method m f s))"
      by blast
    let ?dt = "o_t2 (outcome_of E (tick s)) - o_t1 (outcome_of E (tick s))"
    let ?dt2 = "o_t2 (outcome_of E (Suc (tick s))) - o_t1 (outcome_of E (Suc (tick s)))"
    let ?s4 = "accumulate method ?dt2 (pass1 E method m f s)"
    have fc: "stress_dfp_func_call B E method 0 s =
        Some (?dt, snd (stress_dfp_arith E m f 0 (log_call method 0 s)))"
      using assms(1) mf arith_fst [of E m f 0 "log_call method 0 s"]
      by (subst stress_dfp_func_call.simps)
         (simp add: log_call_sel prod_eq_iff)
    from eq obtain pr where "stress_dfp_call_method B E method verify s = Some pr"
      by blast
    then obtain rc s' where cm: "stress_dfp_call_method B E method verify s = Some (rc, s')"
      by (cases pr) simp
    have single: "duration (pass0 E method m f s) ! method = duration s ! method + ?dt"
      "ops (pass0 E method m f s) ! method = ops s ! method + 524288"
      using assms by (simp_all add: pass0_sel)
    have double: "duration ?s4 ! method = duration s ! method + ?dt + ?dt2"
      "ops ?s4 ! method = ops s ! method + 2 * 524288"
      using assms by (simp_all add: accumulate_sel pass1_sel pass0_sel)
    note fr = compare_frame [of B "method" 0 ?s4]
    have "duration s' ! method = duration s ! method + ?dt \<and>
          ops s' ! method = ops s ! method + 524288
       \<or> (verify \<and> duration s' ! method = duration s ! method + ?dt + ?dt2 \<and>
           ops s' ! method = ops s ! method + 2 * 524288)"
      using cm single double fr unfolding eq
      by (auto simp: pass1_sel split: if_splits)
    with fc cm pos False show ?thesis
      by (rule_tac exI [of _ ?dt],
          rule_tac exI [of _ "snd (stress_dfp_arith E m f 0 (log_call method 0 s))"],
          rule_tac exI [of _ rc], rule_tac exI [of _ s']) (auto simp: c)
  qed
qed

theorem dfp_all_entry_accumulates_unreported_witness:
  "0 < STRESS_NUM_DFP_FUNCS dfp_build_all \<and>
   length (duration (dfp_init dfp_build_all (\<lambda>i. 0))) = STRESS_NUM_DFP_FUNCS dfp_build_all \<and>
   length (ops (dfp_init dfp_build_all (\<lambda>i. 0))) = STRESS_NUM_DFP_FUNCS dfp_build_all \<and>
   (\<exists>dt s1 rc s'.
      stress_dfp_func_call dfp_build_all dfp_env_mismatch 0 0
        (dfp_init dfp_build_all (\<lambda>i. 0)) = Some (dt, s1) \<and>
      stress_dfp_call_method dfp_build_all dfp_env_mismatch 0 True
        (dfp_init dfp_build_all (\<lambda>i. 0)) = Some (rc, s') \<and>
      dt = - 1 \<and> rc = EXIT_SUCCESS \<and> duration s' ! 0 = - 1 \<and> ops s' ! 0 = 524288 \<and>
      map m_idx (stress_dfp_report dfp_build_all 1 s') = [0] \<and>
      map m_desc (stress_dfp_report dfp_build_all 1 s') =
        [''Mdfp-ops per sec, _Decimal32 add      ''])"
proof -
  let ?s = "dfp_init dfp_build_all (\<lambda>i. 0)"
  have h: "0 < STRESS_NUM_DFP_FUNCS dfp_build_all"
    "length (duration ?s) = STRESS_NUM_DFP_FUNCS dfp_build_all"
    "length (ops ?s) = STRESS_NUM_DFP_FUNCS dfp_build_all"
    by (simp_all add: dfp_eval)
  have ev1: "(case stress_dfp_func_call dfp_build_all dfp_env_mismatch 0 0 ?s of
      None \<Rightarrow> None | Some (dt, s1) \<Rightarrow> Some dt) = Some (- 1)"
    by (simp add: dfp_eval dfp_env_mismatch_def)
  have rep: "replicate 6 CHR '' '' = ''      ''"
    by (simp add: numeral_eq_Suc)
  have ev2: "(case stress_dfp_call_method dfp_build_all dfp_env_mismatch 0 True ?s of
      None \<Rightarrow> None
    | Some (rc, s') \<Rightarrow> Some (rc, duration s' ! 0, ops s' ! 0,
        map m_idx (stress_dfp_report dfp_build_all 1 s'),
        map m_desc (stress_dfp_report dfp_build_all 1 s'))) =
     Some (EXIT_SUCCESS, - 1, 524288, [0], [''Mdfp-ops per sec, _Decimal32 add      ''])"
    by (simp add: dfp_eval dfp_env_mismatch_def dfp_report_eq dfp_metric_msg_def pad_right_def
          upt_rec rep)
  from dfp_all_entry_accumulates_unreported [OF h, of dfp_env_mismatch True]
  obtain dt s1 rc s' where
    r: "stress_dfp_func_call dfp_build_all dfp_env_mismatch 0 0 ?s = Some (dt, s1)"
       "stress_dfp_call_method dfp_build_all dfp_env_mismatch 0 True ?s = Some (rc, s')"
    by blast
  from ev1 ev2 r h show ?thesis by simp
qed

section \<open>Facts and claims about the prime search stressor\<close>

lemma handler_first:
  "count s = 0 \<Longrightarrow>
   stress_prime_alarm_handler s = (s\<lparr>pr_continue_flag := False, count := 1\<rparr>, False)"
  by (simp add: stress_prime_alarm_handler_def Let_def)

lemma handler_later:
  assumes "1 \<le> count s" "count s < 2 ^ 31 - 1"
  shows "stress_prime_alarm_handler s =
           (s\<lparr>pr_continue_flag := False, count := count s + 1\<rparr>, True)"
proof -
  have "signed_take_bit 31 (count s + 1) = count s + 1"
    using assms by (intro signed_take_bit_int_eq_self) simp_all
  with assms show ?thesis
    by (simp add: stress_prime_alarm_handler_def Let_def)
qed

lemma deliver_once:
  "count s = 0 \<Longrightarrow> deliver 1 s = (s\<lparr>pr_continue_flag := False, count := 1\<rparr>, False)"
  by (simp add: handler_first)

lemma deliver_twice:
  "count s = 0 \<Longrightarrow> deliver (Suc (Suc n)) s = (s\<lparr>pr_continue_flag := False, count := 2\<rparr>, True)"
  using handler_later [of "s\<lparr>pr_continue_flag := False, count := 1\<rparr>"]
  by (simp add: handler_first)

lemma prime_body_sel:
  "pr_continue_flag (prime_body pm ev s) = pr_continue_flag s"
  "count (prime_body pm ev s) = count s"
  "jumped (prime_body pm ev s) = jumped s"
  "mpz_cleared (prime_body pm ev s) = mpz_cleared s"
  "proc_state (prime_body pm ev s) = proc_state s"
  "pr_metrics (prime_body pm ev s) = pr_metrics s"
  "pr_bogo (prime_body pm ev s) = Suc (pr_bogo s)"
  "iter (prime_body pm ev s) = Suc (iter s)"
  "pr_duration (prime_body pm ev s) = pr_duration s + ev_elapsed ev"
  by (simp_all add: prime_body_def Let_def)

lemma prime_quiet_sel:
  "pr_continue_flag (prime_quiet k E pm s) = pr_continue_flag s"
  "count (prime_quiet k E pm s) = count s"
  "jumped (prime_quiet k E pm s) = jumped s"
  "mpz_cleared (prime_quiet k E pm s) = mpz_cleared s"
  "proc_state (prime_quiet k E pm s) = proc_state s"
  "pr_metrics (prime_quiet k E pm s) = pr_metrics s"
  "pr_bogo (prime_quiet k E pm s) = pr_bogo s + k"
  "iter (prime_quiet k E pm s) = iter s + k"
  by (induction k arbitrary: s; simp add: prime_body_sel)+

lemma prime_loop_quiet:
  assumes "\<forall>j<k. ev_alarms (event_of E (iter s + j)) = 0"
    and "pr_max_ops E = 0 \<or> pr_bogo s + k < pr_max_ops E"
    and "pr_continue_flag s"
  shows "stress_prime_loop (k + n) E pm s = stress_prime_loop n E pm (prime_quiet k E pm s)"
  using assms
proof (induction k arbitrary: s)
  case 0
  then show ?case by simp
next
  case (Suc k)
  let ?s1 = "prime_body pm (event_of E (iter s)) s"
  have q: "ev_alarms (event_of E (iter s)) = 0" using Suc.prems(1) by force
  have c: "prime_continue E ?s1"
    using Suc.prems by (auto simp: prime_continue_def prime_body_sel)
  have ih: "stress_prime_loop (k + n) E pm ?s1 = stress_prime_loop n E pm (prime_quiet k E pm ?s1)"
  proof (rule Suc.IH)
    show "\<forall>j<k. ev_alarms (event_of E (iter ?s1 + j)) = 0"
      using Suc.prems(1) by (auto simp: prime_body_sel)
    show "pr_max_ops E = 0 \<or> pr_bogo ?s1 + k < pr_max_ops E"
      using Suc.prems(2) by (auto simp: prime_body_sel)
    show "pr_continue_flag ?s1" using Suc.prems(3) by (simp add: prime_body_sel)
  qed
  show ?case using q c ih by (simp add: Let_def)
qed

lemma prime_finish_sel:
  "fst (stress_prime_finish s) = EXIT_SUCCESS"
  "jumped (snd (stress_prime_finish s)) = jumped s"
  "mpz_cleared (snd (stress_prime_finish s)) = (mpz_cleared s \<or> \<not> jumped s)"
  "count (snd (stress_prime_finish s)) = count s"
  "pr_continue_flag (snd (stress_prime_finish s)) = pr_continue_flag s"
  "pr_bogo (snd (stress_prime_finish s)) = pr_bogo s"
  "proc_state (snd (stress_prime_finish s)) = STRESS_STATE_DEINIT"
  "pr_metrics (snd (stress_prime_finish s)) = pr_metrics s @
     [\<lparr>m_idx = 0, m_desc = ''primes per second'',
       m_value = (if pr_duration s > 0 then real (pr_bogo s) / pr_duration s else 0),
       m_kind = Some HARMONIC_MEAN\<rparr>]"
  by (simp_all add: stress_prime_finish_def Let_def)

lemma prime_init_sel:
  "pr_continue_flag prime_init" "count prime_init = 0" "\<not> jumped prime_init"
  "\<not> mpz_cleared prime_init" "pr_bogo prime_init = 0" "iter prime_init = 0"
  "pr_metrics prime_init = []"
  by (simp_all add: prime_init_def)

text \<open>
  C7. The handler is two-stage: a delivery with \<^verbatim>\<open>count\<close> 0 (the first) clears the continue
  flag, makes \<^verbatim>\<open>count\<close> 1 and does not jump; a delivery with \<^verbatim>\<open>count\<close> at least 1 (and below
  \<^verbatim>\<open>INT_MAX\<close>) clears the flag, increments \<^verbatim>\<open>count\<close> and performs \<^verbatim>\<open>siglongjmp\<close>. In a run
  whose first signal arrives during iteration k (counted from 0) of the loop: when it
  arrives once, that iteration is completed (k + 1 bogo ops), the loop ends at its condition,
  \<^verbatim>\<open>jumped\<close> stays false and \<^verbatim>\<open>mpz_clears\<close> is called; when it arrives at least twice, the
  second delivery jumps out of the iteration (k bogo ops), \<^verbatim>\<open>jumped\<close> is set and
  \<^verbatim>\<open>mpz_clears\<close> is not called. Either way the run sets its one metric, sets the process state
  to \<^verbatim>\<open>STRESS_STATE_DEINIT\<close> and returns \<^verbatim>\<open>EXIT_SUCCESS\<close>.
\<close>

theorem prime_alarm_two_stage:
  "(count s = 0 \<longrightarrow>
      stress_prime_alarm_handler s = (s\<lparr>pr_continue_flag := False, count := 1\<rparr>, False)) \<and>
   (1 \<le> count s \<and> count s < 2 ^ 31 - 1 \<longrightarrow>
      stress_prime_alarm_handler s =
        (s\<lparr>pr_continue_flag := False, count := count s + 1\<rparr>, True)) \<and>
   ((\<forall>j<k. ev_alarms (event_of E j) = 0) \<and> (pr_max_ops E = 0 \<or> k < pr_max_ops E) \<and>
    k < fuel \<and> ev_alarms (event_of E k) = 1 \<longrightarrow>
      (\<exists>r. stress_prime fuel E True pm = Some (EXIT_SUCCESS, r) \<and>
           \<not> jumped r \<and> mpz_cleared r \<and> count r = 1 \<and> \<not> pr_continue_flag r \<and>
           pr_bogo r = Suc k \<and> length (pr_metrics r) = 1 \<and>
           proc_state r = STRESS_STATE_DEINIT)) \<and>
   ((\<forall>j<k. ev_alarms (event_of E j) = 0) \<and> (pr_max_ops E = 0 \<or> k < pr_max_ops E) \<and>
    k < fuel \<and> 2 \<le> ev_alarms (event_of E k) \<longrightarrow>
      (\<exists>r. stress_prime fuel E True pm = Some (EXIT_SUCCESS, r) \<and>
           jumped r \<and> \<not> mpz_cleared r \<and> count r = 2 \<and> \<not> pr_continue_flag r \<and>
           pr_bogo r = k \<and> length (pr_metrics r) = 1 \<and>
           proc_state r = STRESS_STATE_DEINIT))"
proof (intro conjI impI)
  show "count s = 0 \<Longrightarrow>
      stress_prime_alarm_handler s = (s\<lparr>pr_continue_flag := False, count := 1\<rparr>, False)"
    by (rule handler_first)
next
  show "1 \<le> count s \<and> count s < 2 ^ 31 - 1 \<Longrightarrow>
      stress_prime_alarm_handler s =
        (s\<lparr>pr_continue_flag := False, count := count s + 1\<rparr>, True)"
    by (simp add: handler_later)
next
  assume a: "(\<forall>j<k. ev_alarms (event_of E j) = 0) \<and> (pr_max_ops E = 0 \<or> k < pr_max_ops E) \<and>
    k < fuel \<and> ev_alarms (event_of E k) = 1"
  from a have "k < fuel" by simp
  then obtain n where "fuel = Suc (k + n)" by (auto simp: less_iff_Suc_add)
  then have fuel: "fuel = k + Suc n" by simp
  let ?q = "prime_quiet k E pm prime_init"
  let ?d = "?q\<lparr>pr_continue_flag := False, count := 1\<rparr>"
  let ?b = "prime_body pm (event_of E k) ?d"
  have pre: "stress_prime_loop fuel E pm prime_init = stress_prime_loop (Suc n) E pm ?q"
    unfolding fuel using a by (intro prime_loop_quiet) (simp_all add: prime_init_sel)
  have "stress_prime_loop (Suc n) E pm ?q = Some (?b, False)"
    using a deliver_once [of ?q]
    by (simp add: prime_quiet_sel prime_init_sel prime_continue_def prime_body_sel Let_def)
  with pre have "stress_prime fuel E True pm = Some (stress_prime_finish ?b)"
    by (simp add: stress_prime_def)
  then show "\<exists>r. stress_prime fuel E True pm = Some (EXIT_SUCCESS, r) \<and>
           \<not> jumped r \<and> mpz_cleared r \<and> count r = 1 \<and> \<not> pr_continue_flag r \<and>
           pr_bogo r = Suc k \<and> length (pr_metrics r) = 1 \<and>
           proc_state r = STRESS_STATE_DEINIT"
    by (intro exI [of _ "snd (stress_prime_finish ?b)"])
       (simp add: prime_finish_sel prime_body_sel prime_quiet_sel prime_init_sel
          prod_eq_iff)
next
  assume a: "(\<forall>j<k. ev_alarms (event_of E j) = 0) \<and> (pr_max_ops E = 0 \<or> k < pr_max_ops E) \<and>
    k < fuel \<and> 2 \<le> ev_alarms (event_of E k)"
  from a have "k < fuel" by simp
  then obtain n where "fuel = Suc (k + n)" by (auto simp: less_iff_Suc_add)
  then have fuel: "fuel = k + Suc n" by simp
  from a obtain a2 where "ev_alarms (event_of E k) = 2 + a2"
    by (auto simp: le_iff_add)
  then have a2: "ev_alarms (event_of E k) = Suc (Suc a2)" by simp
  let ?q = "prime_quiet k E pm prime_init"
  let ?d = "?q\<lparr>pr_continue_flag := False, count := 2\<rparr>"
  have pre: "stress_prime_loop fuel E pm prime_init = stress_prime_loop (Suc n) E pm ?q"
    unfolding fuel using a by (intro prime_loop_quiet) (simp_all add: prime_init_sel)
  have "stress_prime_loop (Suc n) E pm ?q = Some (?d, True)"
    using a2 deliver_twice [of ?q a2]
    by (simp add: prime_quiet_sel prime_init_sel)
  with pre have "stress_prime fuel E True pm =
      Some (stress_prime_finish (?d\<lparr>jumped := True\<rparr>))"
    by (simp add: stress_prime_def)
  then show "\<exists>r. stress_prime fuel E True pm = Some (EXIT_SUCCESS, r) \<and>
           jumped r \<and> \<not> mpz_cleared r \<and> count r = 2 \<and> \<not> pr_continue_flag r \<and>
           pr_bogo r = k \<and> length (pr_metrics r) = 1 \<and>
           proc_state r = STRESS_STATE_DEINIT"
    by (intro exI [of _ "snd (stress_prime_finish (?d\<lparr>jumped := True\<rparr>))"])
       (simp add: prime_finish_sel prime_quiet_sel prime_init_sel prod_eq_iff)
qed

theorem prime_alarm_two_stage_witness:
  "count prime_init = 0 \<and>
   stress_prime_alarm_handler prime_init =
     (prime_init\<lparr>pr_continue_flag := False, count := 1\<rparr>, False) \<and>
   1 \<le> count (prime_init\<lparr>count := 1\<rparr>) \<and>
   count (prime_init\<lparr>count := 1\<rparr>) < 2 ^ 31 - 1 \<and>
   snd (stress_prime_alarm_handler (prime_init\<lparr>count := 1\<rparr>)) \<and>
   ev_alarms (event_of (prime_env_alarms 2) 0) = 0 \<and>
   ev_alarms (event_of (prime_env_alarms 2) 1) = 0 \<and>
   pr_max_ops (prime_env_alarms 2) = 0 \<and> (2 :: nat) < 3 \<and>
   2 \<le> ev_alarms (event_of (prime_env_alarms 2) 2) \<and>
   (\<exists>r. stress_prime 3 (prime_env_alarms 2) True STRESS_PRIME_METHOD_INC =
          Some (EXIT_SUCCESS, r) \<and>
        jumped r \<and> \<not> mpz_cleared r \<and> count r = 2 \<and> \<not> pr_continue_flag r \<and>
        pr_bogo r = 2 \<and> length (pr_metrics r) = 1 \<and> proc_state r = STRESS_STATE_DEINIT) \<and>
   ev_alarms (event_of (prime_env_alarms 1) 0) = 0 \<and>
   ev_alarms (event_of (prime_env_alarms 1) 1) = 0 \<and>
   pr_max_ops (prime_env_alarms 1) = 0 \<and>
   ev_alarms (event_of (prime_env_alarms 1) 2) = 1 \<and>
   (\<exists>r. stress_prime 3 (prime_env_alarms 1) True STRESS_PRIME_METHOD_INC =
          Some (EXIT_SUCCESS, r) \<and>
        \<not> jumped r \<and> mpz_cleared r \<and> count r = 1 \<and> \<not> pr_continue_flag r \<and>
        pr_bogo r = 3 \<and> length (pr_metrics r) = 1 \<and> proc_state r = STRESS_STATE_DEINIT)"
proof -
  note t = prime_alarm_two_stage
    [of prime_init 2 "prime_env_alarms 2" 3 STRESS_PRIME_METHOD_INC]
  note u = prime_alarm_two_stage
    [of "prime_init\<lparr>count := 1\<rparr>" 2 "prime_env_alarms 1" 3 STRESS_PRIME_METHOD_INC]
  have e: "ev_alarms (event_of (prime_env_alarms n) 0) = 0"
    "ev_alarms (event_of (prime_env_alarms n) 1) = 0"
    "pr_max_ops (prime_env_alarms n) = 0"
    "ev_alarms (event_of (prime_env_alarms n) 2) = n" for n
    by (simp_all add: prime_env_alarms_def)
  have quiet: "\<forall>j<2. ev_alarms (event_of (prime_env_alarms n) j) = 0" for n
  proof (intro allI impI)
    fix j :: nat assume "j < 2"
    then have "j = 0 \<or> j = 1" by arith
    with e [of n] show "ev_alarms (event_of (prime_env_alarms n) j) = 0" by auto
  qed
  have q2: "(\<forall>j<2. ev_alarms (event_of (prime_env_alarms 2) j) = 0) \<and>
    (pr_max_ops (prime_env_alarms 2) = 0 \<or> 2 < pr_max_ops (prime_env_alarms 2)) \<and>
    (2 :: nat) < 3 \<and> 2 \<le> ev_alarms (event_of (prime_env_alarms 2) 2)"
    using quiet [of 2] e [of 2] by simp
  have q1: "(\<forall>j<2. ev_alarms (event_of (prime_env_alarms 1) j) = 0) \<and>
    (pr_max_ops (prime_env_alarms 1) = 0 \<or> 2 < pr_max_ops (prime_env_alarms 1)) \<and>
    (2 :: nat) < 3 \<and> ev_alarms (event_of (prime_env_alarms 1) 2) = 1"
    using quiet [of 1] e [of 1] by simp
  from t [THEN conjunct2, THEN conjunct2, THEN conjunct2, THEN mp, OF q2]
  have ex2: "\<exists>r. stress_prime 3 (prime_env_alarms 2) True STRESS_PRIME_METHOD_INC =
          Some (EXIT_SUCCESS, r) \<and>
        jumped r \<and> \<not> mpz_cleared r \<and> count r = 2 \<and> \<not> pr_continue_flag r \<and>
        pr_bogo r = 2 \<and> length (pr_metrics r) = 1 \<and> proc_state r = STRESS_STATE_DEINIT" .
  from u [THEN conjunct2, THEN conjunct2, THEN conjunct1, THEN mp, OF q1]
  have ex1: "\<exists>r. stress_prime 3 (prime_env_alarms 1) True STRESS_PRIME_METHOD_INC =
          Some (EXIT_SUCCESS, r) \<and>
        \<not> jumped r \<and> mpz_cleared r \<and> count r = 1 \<and> \<not> pr_continue_flag r \<and>
        pr_bogo r = Suc 2 \<and> length (pr_metrics r) = 1 \<and> proc_state r = STRESS_STATE_DEINIT" .
  have c0: "count prime_init = 0" by (simp add: prime_init_sel)
  from t [THEN conjunct1, THEN mp, OF c0]
  have h0: "stress_prime_alarm_handler prime_init =
     (prime_init\<lparr>pr_continue_flag := False, count := 1\<rparr>, False)" .
  have c1: "1 \<le> count (prime_init\<lparr>count := 1\<rparr>) \<and>
     count (prime_init\<lparr>count := 1\<rparr>) < 2 ^ 31 - 1" by simp
  from u [THEN conjunct2, THEN conjunct1, THEN mp, OF c1]
  have h1: "snd (stress_prime_alarm_handler (prime_init\<lparr>count := 1\<rparr>))" by simp
  have n3: "Suc 2 = 3" by simp
  from c0 h0 c1 h1 e [of 1] e [of 2] ex2 ex1 [unfolded n3] show ?thesis
    by (intro conjI) simp_all
qed

section \<open>Facts about the IPSec harness\<close>

lemma ipsec_job_func_call:
  assumes "0 < fi" "fi < NUM_IPSEC_FUNCS"
  shows "stress_ipsec_func F E jobs fi s = Some (stress_ipsec_job_func E jobs s)"
proof -
  have "fst (stress_ipsec_funcs ! fi) \<noteq> Ipsec_all"
    using assms ipsec_all_only_first [of fi] by auto
  with assms show ?thesis by (subst stress_ipsec_func.simps) simp
qed

lemma ipsec_job_func_sel:
  "supported (stress_ipsec_job_func E jobs s) = supported s"
  "st_ops (stress_ipsec_job_func E jobs s) = st_ops s"
  "st_duration (stress_ipsec_job_func E jobs s) = st_duration s"
  "call_funcs (stress_ipsec_job_func E jobs s) = call_funcs s"
  "invoked (stress_ipsec_job_func E jobs s) = invoked s"
  "allocs (stress_ipsec_job_func E jobs s) = allocs s @ [io_alloc_ok (ip_outcome_of E (ip_tick s))]"
  "ip_tick (stress_ipsec_job_func E jobs s) = Suc (ip_tick s)"
  by (simp_all add: stress_ipsec_job_func_def Let_def)

lemma ipsec_job_func_alloc_failed:
  "\<not> io_alloc_ok (ip_outcome_of E (ip_tick s)) \<Longrightarrow>
   counter (stress_ipsec_job_func E jobs s) = counter s"
  by (simp add: stress_ipsec_job_func_def Let_def)

lemma ipsec_all_loop_each:
  "stress_ipsec_all_loop F E jobs i s = ipsec_call_each F E jobs [i..<NUM_IPSEC_FUNCS] s"
proof (induction "NUM_IPSEC_FUNCS - i" arbitrary: i s)
  case 0
  then show ?case by (subst stress_ipsec_all_loop.simps) simp
next
  case (Suc n)
  then have lt: "i < NUM_IPSEC_FUNCS" by simp
  have n: "n = NUM_IPSEC_FUNCS - (i + 1)" using Suc.hyps(2) by simp
  show ?case
    using lt Suc.hyps(1) [OF n]
    by (subst stress_ipsec_all_loop.simps)
       (simp add: upt_rec [of i] stress_ipsec_call_func_def split: option.splits)
qed

lemma ipsec_report_eq:
  "stress_ipsec_report F i j s =
     map (\<lambda>(n, d). \<lparr>m_idx = n,
                     m_desc = take 31 (feature_name (mb_features F ! d) @ '' bogo ops per sec''),
                     m_value = st_ops s ! d / st_duration s ! d,
                     m_kind = None\<rparr>)
       (zip [j..<j + NUM_MB_FEATURES] (filter (\<lambda>d. st_duration s ! d > 0) [i..<NUM_MB_FEATURES]))"
proof (induction "NUM_MB_FEATURES - i" arbitrary: i j)
  case 0
  then show ?case by (subst stress_ipsec_report.simps) simp
next
  case (Suc n)
  then have lt: "i < NUM_MB_FEATURES" by simp
  have n: "n = NUM_MB_FEATURES - (i + 1)" using Suc.hyps(2) by simp
  have z: "[j..<j + NUM_MB_FEATURES] = j # [j + 1..<j + NUM_MB_FEATURES]"
    by (simp add: upt_rec NUM_MB_FEATURES_def)
  have len: "length (filter (\<lambda>d. st_duration s ! d > 0) [i + 1..<NUM_MB_FEATURES]) < NUM_MB_FEATURES"
    using lt by (intro le_less_trans [OF length_filter_le]) simp
  have tk: "\<And>xs :: nat list. length xs < NUM_MB_FEATURES \<Longrightarrow>
      zip [j + 1..<j + NUM_MB_FEATURES] xs = zip [j + 1..<j + 1 + NUM_MB_FEATURES] xs"
  proof -
    fix xs :: "nat list" assume l: "length xs < NUM_MB_FEATURES"
    have "[j + 1..<Suc (j + NUM_MB_FEATURES)] =
        [j + 1..<j + NUM_MB_FEATURES] @ [j + NUM_MB_FEATURES]"
      by (rule upt_Suc_append) (simp add: NUM_MB_FEATURES_def)
    moreover have "j + 1 + NUM_MB_FEATURES = Suc (j + NUM_MB_FEATURES)" by simp
    ultimately
    have "[j + 1..<j + 1 + NUM_MB_FEATURES] = [j + 1..<j + NUM_MB_FEATURES] @ [j + NUM_MB_FEATURES]"
      by (simp only:)
    then have "zip [j + 1..<j + 1 + NUM_MB_FEATURES] xs =
        zip ([j + 1..<j + NUM_MB_FEATURES] @ [j + NUM_MB_FEATURES]) xs" by simp
    also have "\<dots> = zip [j + 1..<j + NUM_MB_FEATURES] xs"
      using l by (simp add: zip_append1)
    finally show "zip [j + 1..<j + NUM_MB_FEATURES] xs = zip [j + 1..<j + 1 + NUM_MB_FEATURES] xs"
      by simp
  qed
  show ?case
  proof (cases "st_duration s ! i > 0")
    case True
    show ?thesis
      using lt True Suc.hyps(1) [OF n, of "j + 1"] tk [OF len]
      by (subst stress_ipsec_report.simps) (simp add: upt_rec [of i] z)
  next
    case False
    show ?thesis
      using lt False Suc.hyps(1) [OF n, of j]
      by (subst stress_ipsec_report.simps) (simp add: upt_rec [of i])
  qed
qed

lemma ipsec_loop_numeral:
  "stress_ipsec_mb_loop (numeral k) F E jobs m s =
     (case stress_ipsec_mb_pass F E jobs m 0 s of
        None \<Rightarrow> None
      | Some s' \<Rightarrow>
          if keep_stressing E s' then stress_ipsec_mb_loop (pred_numeral k) F E jobs m s'
          else Some s')"
  by (simp add: numeral_eq_Suc)

lemma upt_five: "[0..<5] = [0, 1, 2, 3, 4]"
  by (simp add: upt_rec)

lemma replicate_five: "replicate 5 x = [x, x, x, x, x]"
  by (simp add: numeral_eq_Suc)

lemmas ipsec_eval = ipsec_loop_numeral replicate_five upt_five
  stress_ipsec_func.simps stress_ipsec_call_func_loop.simps stress_ipsec_all_loop.simps
  stress_ipsec_mb_pass.simps stress_ipsec_report.simps stress_ipsec_call_func_def
  stress_ipsec_job_func_def ipsec_add_stats_def keep_stressing_def NUM_MB_FEATURES_def
  NUM_IPSEC_FUNCS_def stress_ipsec_funcs_def mb_features_def ipsec_init_def ipsec_run_def
  stress_ipsec_mb_def imb_bits_def feats_sse_aesni_def ipsec_outcome_1_def
  ipsec_two_supported_def Let_def

section \<open>The claims about the IPSec harness\<close>

text \<open>
  C2 (a defect of the code). \<^verbatim>\<open>stress_ipsec_mb\<close> loops over the supported features and calls
  \<^verbatim>\<open>stress_ipsec_call_func\<close> for each, and \<^verbatim>\<open>stress_ipsec_call_func\<close> loops over the supported
  features again. On a processor with SSE4.2, CMOV and AES-NI (features "noaesni" and
  "sse", indices 3 and 4, supported) one pass with method "cmac" (index 1) calls the method
  function twice under each feature, not once; and with method "all" (index 0) each
  feature's \<^verbatim>\<open>stats.ops\<close> ends at 56 although the 28 runs under each feature completed 28
  jobs, because the outer measurement of "all" spans the runs under every feature.
\<close>

theorem ipsec_pass_repeats_every_feature:
  "map (\<lambda>d. (features d AND feats_sse_aesni) = features d) (mb_features imb_bits) =
     [False, False, False, True, True] \<and>
   (case stress_ipsec_mb_pass imb_bits ipsec_env_steady 128 1 0 ipsec_two_supported of
      None \<Rightarrow> None | Some s \<Rightarrow> Some (invoked s)) =
     Some [(3, 1), (4, 1), (3, 1), (4, 1)] \<and>
   (case stress_ipsec_mb_pass imb_bits ipsec_env_steady 128 0 0 ipsec_two_supported of
      None \<Rightarrow> None
    | Some s \<Rightarrow> Some (st_ops s, counter s,
        length (filter (\<lambda>c. fst c = 3 \<and> snd c \<noteq> 0) (invoked s)),
        length (filter (\<lambda>c. fst c = 4 \<and> snd c \<noteq> 0) (invoked s)))) =
     Some ([0, 0, 0, 56, 56], 56, 28, 28)"
  by (simp add: ipsec_eval ipsec_env_steady_def)

text \<open>
  Counterexample to C8 as stated: with the feature "sse" pinned and method "cmac", the
  buffer allocation of the first call fails; the run is not aborted, the time of the
  failed call is added to the feature's duration, the next pass allocates again
  (successfully), and the stressor returns \<^verbatim>\<open>EXIT_SUCCESS\<close> with one completed job in a
  duration of 2.
\<close>

theorem ipsec_alloc_failure_not_aborted:
  "(case stress_ipsec_mb 5 imb_bits ipsec_env_alloc_fails True True feats_sse_aesni (Some 4)
           1 128 of
      None \<Rightarrow> None
    | Some (rc, ms, s) \<Rightarrow> Some (rc, allocs s, counter s, st_duration s, st_ops s)) =
     Some (EXIT_SUCCESS, [False, True], 1, [0, 0, 0, 0, 2], [0, 0, 0, 0, 1])"
  by (simp add: ipsec_eval ipsec_env_alloc_fails_def)

lemma deliver_metrics:
  "pr_metrics (fst (deliver n s)) = pr_metrics s \<and>
   pr_duration (fst (deliver n s)) = pr_duration s \<and>
   pr_bogo (fst (deliver n s)) = pr_bogo s"
proof (induction n arbitrary: s)
  case 0
  then show ?case by simp
next
  case (Suc n)
  show ?case
    using Suc [of "fst (stress_prime_alarm_handler s)"]
    by (simp add: split_beta) (simp add: stress_prime_alarm_handler_def Let_def)
qed

lemma prime_loop_metrics:
  "stress_prime_loop fuel E pm s = Some (s', esc) \<Longrightarrow> pr_metrics s' = pr_metrics s"
proof (induction fuel arbitrary: s)
  case 0
  then show ?case by simp
next
  case (Suc n)
  obtain s1 jmp where d: "deliver (ev_alarms (event_of E (iter s))) s = (s1, jmp)"
    by (cases "deliver (ev_alarms (event_of E (iter s))) s")
  with deliver_metrics [of "ev_alarms (event_of E (iter s))" s]
  have m1: "pr_metrics s1 = pr_metrics s" by simp
  show ?case
  proof (cases jmp)
    case True
    with Suc.prems d m1 show ?thesis by simp
  next
    case False
    let ?s2 = "prime_body pm (event_of E (iter s)) s1"
    have m2: "pr_metrics ?s2 = pr_metrics s" using m1 by (simp add: prime_body_sel)
    show ?thesis
    proof (cases "prime_continue E ?s2")
      case True
      with Suc.prems d False have "stress_prime_loop n E pm ?s2 = Some (s', esc)"
        by (simp add: Let_def)
      from Suc.IH [OF this] m2 show ?thesis by simp
    next
      case False
      with Suc.prems d \<open>\<not> jmp\<close> m2 show ?thesis by (auto simp: Let_def)
    qed
  qed
qed

lemma prime_finish_rate:
  "pr_duration (snd (stress_prime_finish s)) = pr_duration s"
  by (simp add: stress_prime_finish_def Let_def)

lemma prime_run_metrics:
  assumes "stress_prime fuel E True pm = Some (rc, r)"
  shows "pr_metrics r =
     [\<lparr>m_idx = 0, m_desc = ''primes per second'',
       m_value = (if pr_duration r > 0 then real (pr_bogo r) / pr_duration r else 0),
       m_kind = Some HARMONIC_MEAN\<rparr>]"
proof -
  from assms obtain s esc where
    l: "stress_prime_loop fuel E pm prime_init = Some (s, esc)" and
    r: "(rc, r) = stress_prime_finish (if esc then s\<lparr>jumped := True\<rparr> else s)"
    by (auto simp: stress_prime_def split: option.splits)
  from prime_loop_metrics [OF l] have m: "pr_metrics s = []" by (simp add: prime_init_sel)
  let ?s = "if esc then s\<lparr>jumped := True\<rparr> else s"
  have "pr_metrics ?s = []" "r = snd (stress_prime_finish ?s)"
    using m r by (simp_all add: prod_eq_iff)
  then show ?thesis
    by (simp add: prime_finish_sel prime_finish_rate)
qed

lemma zip_upt_longer:
  "length xs \<le> n \<Longrightarrow> zip [j..<j + n] xs = enumerate j xs"
proof -
  assume l: "length xs \<le> n"
  then have "[j..<j + n] = [j..<j + length xs] @ [j + length xs..<j + n]"
    by (metis le_add1 nat_add_left_cancel_le upt_add_eq_append le_Suc_ex)
  then have "zip [j..<j + n] xs = zip ([j..<j + length xs] @ [j + length xs..<j + n]) xs"
    by simp
  also have "\<dots> = zip [j..<j + length xs] xs"
    by (simp add: zip_append1)
  finally show ?thesis by (simp add: enumerate_eq_zip)
qed

lemma ipsec_report_enumerate:
  "stress_ipsec_report F 0 0 s =
     map (\<lambda>(n, d). \<lparr>m_idx = n,
                     m_desc = take 31 (feature_name (mb_features F ! d) @ '' bogo ops per sec''),
                     m_value = st_ops s ! d / st_duration s ! d,
                     m_kind = None\<rparr>)
       (enumerate 0 (filter (\<lambda>d. st_duration s ! d > 0) [0..<NUM_MB_FEATURES]))"
proof -
  have "length (filter (\<lambda>d. st_duration s ! d > 0) [0..<NUM_MB_FEATURES]) \<le> NUM_MB_FEATURES"
    using length_filter_le [of "\<lambda>d. st_duration s ! d > 0" "[0..<NUM_MB_FEATURES]"] by simp
  from zip_upt_longer [OF this, of 0] show ?thesis
    by (simp add: ipsec_report_eq)
qed

text \<open>
  Counterexample to C9 as stated. A prime run whose clock did not advance sets its metric
  although the duration is 0 (with the value 0.0); the IPSec report sets a metric with no
  aggregation kind; and the value the decimal stressor reports for 1048576 ops in 2 seconds
  is 0.524288 (millions of ops per second), not ops / duration.
\<close>

theorem rate_metric_counterexample:
  "(case stress_prime 1 prime_env_instant True STRESS_PRIME_METHOD_INC of
      None \<Rightarrow> None | Some (rc, r) \<Rightarrow> Some (pr_duration r, pr_bogo r, pr_metrics r)) =
     Some (0, 1, [\<lparr>m_idx = 0, m_desc = ''primes per second'', m_value = 0,
                   m_kind = Some HARMONIC_MEAN\<rparr>]) \<and>
   map m_kind (stress_ipsec_report imb_bits 0 0
       (ipsec_init\<lparr>st_duration := [0, 0, 0, 0, 2], st_ops := [0, 0, 0, 0, 1]\<rparr>)) = [None] \<and>
   map m_value (stress_dfp_report dfp_build_all 1
       ((dfp_init dfp_build_all (\<lambda>i. 0))
          \<lparr>duration := [0, 2, 0, 0, 0, 0, 0, 0, 0, 0],
           ops := [0, 1048576, 0, 0, 0, 0, 0, 0, 0, 0]\<rparr>)) = [524288 / 1000000] \<and>
   (1048576 :: real) / 2 \<noteq> 524288 / 1000000"
proof (intro conjI)
  show "(case stress_prime 1 prime_env_instant True STRESS_PRIME_METHOD_INC of
      None \<Rightarrow> None | Some (rc, r) \<Rightarrow> Some (pr_duration r, pr_bogo r, pr_metrics r)) =
     Some (0, 1, [\<lparr>m_idx = 0, m_desc = ''primes per second'', m_value = 0,
                   m_kind = Some HARMONIC_MEAN\<rparr>])"
    by (simp add: stress_prime_def prime_env_instant_def prime_init_def handler_first
          prime_body_def prime_continue_def stress_prime_finish_def Let_def
          STRESS_PRIME_METHOD_INC_def)
  show "map m_kind (stress_ipsec_report imb_bits 0 0
       (ipsec_init\<lparr>st_duration := [0, 0, 0, 0, 2], st_ops := [0, 0, 0, 0, 1]\<rparr>)) = [None]"
    by (simp add: ipsec_eval)
  show "map m_value (stress_dfp_report dfp_build_all 1
       ((dfp_init dfp_build_all (\<lambda>i. 0))
          \<lparr>duration := [0, 2, 0, 0, 0, 0, 0, 0, 0, 0],
           ops := [0, 1048576, 0, 0, 0, 0, 0, 0, 0, 0]\<rparr>)) = [524288 / 1000000]"
    by (simp add: dfp_report_eq dfp_eval upt_rec)
  show "(1048576 :: real) / 2 \<noteq> 524288 / 1000000" by simp
qed

section \<open>Runs of the IPSec harness: what is invoked, and that the run ends\<close>

lemma ipsec_later_refl: "ipsec_later E s s"
  by (simp add: ipsec_later_def)

lemma ipsec_later_trans:
  assumes "ipsec_later E s s1" "ipsec_later E s1 s2"
  shows "ipsec_later E s s2"
proof -
  from assms have le: "ip_tick s \<le> ip_tick s1" "ip_tick s1 \<le> ip_tick s2"
    by (simp_all add: ipsec_later_def)
  then have u: "[ip_tick s..<ip_tick s2] = [ip_tick s..<ip_tick s1] @ [ip_tick s1..<ip_tick s2]"
    by (metis le_Suc_ex upt_add_eq_append)
  have i: "{ip_tick s..<ip_tick s2} = {ip_tick s..<ip_tick s1} \<union> {ip_tick s1..<ip_tick s2}"
    using le by auto
  show ?thesis
    using assms le by (auto simp: ipsec_later_def u i)
qed

lemma ipsec_later_frame:
  assumes "ip_tick s' = ip_tick s" "counter s' = counter s" "supported s' = supported s"
    "ip_continue_flag s' = ip_continue_flag s" "allocs s' = allocs s"
  shows "ipsec_later E s s'"
  using assms by (simp add: ipsec_later_def)

lemma ipsec_later_job: "ipsec_later E s (stress_ipsec_job_func E jobs s)"
  by (simp add: ipsec_later_def stress_ipsec_job_func_def Let_def)

lemma ipsec_later_keep:
  "ipsec_later E s s' \<Longrightarrow> keep_stressing E s' \<Longrightarrow> keep_stressing E s"
  by (auto simp: ipsec_later_def keep_stressing_def)

lemma ipsec_later_alarm:
  assumes "ipsec_later E s s'" "io_alarm (ip_outcome_of E n)"
    "ip_continue_flag s \<longrightarrow> ip_tick s \<le> n" "ip_continue_flag s'"
  shows "ip_tick s' \<le> n"
proof (rule ccontr)
  assume "\<not> ip_tick s' \<le> n"
  moreover from assms have "ip_tick s \<le> n" by (simp add: ipsec_later_def)
  ultimately have "n \<in> {ip_tick s..<ip_tick s'}" by simp
  with assms(1,4) have "\<not> io_alarm (ip_outcome_of E n)"
    by (simp add: ipsec_later_def)
  with assms(2) show False by simp
qed

text \<open>One call of \<^verbatim>\<open>stress_ipsec_call_func\<close> for a job function, from feature i on.\<close>

lemma ipsec_call_func_loop_log:
  assumes "0 < fi" "fi < NUM_IPSEC_FUNCS"
  shows "\<exists>s'. stress_ipsec_call_func_loop F E jobs fi i s = Some s' \<and>
           ipsec_later E s s' \<and>
           ip_tick s' =
             ip_tick s + length (filter (\<lambda>d. supported s ! d) [i..<NUM_MB_FEATURES]) \<and>
           call_funcs s' = call_funcs s \<and>
           invoked s' = invoked s @
             map (\<lambda>d. (d, fi)) (filter (\<lambda>d. supported s ! d) [i..<NUM_MB_FEATURES])"
proof (induction "NUM_MB_FEATURES - i" arbitrary: i s)
  case 0
  then show ?case
    by (subst stress_ipsec_call_func_loop.simps) (simp add: ipsec_later_refl)
next
  case (Suc n)
  then have lt: "i < NUM_MB_FEATURES" by simp
  have n: "n = NUM_MB_FEATURES - (i + 1)" using Suc.hyps(2) by simp
  have u: "[i..<NUM_MB_FEATURES] = i # [i + 1..<NUM_MB_FEATURES]"
    using lt by (simp add: upt_rec)
  show ?case
  proof (cases "supported s ! i")
    case False
    with lt Suc.hyps(1) [OF n, of s] show ?thesis
      by (subst stress_ipsec_call_func_loop.simps) (simp add: u)
  next
    case True
    let ?s1 = "s\<lparr>mb_mgr_init := Some (init_func (mb_features F ! i)),
                   invoked := invoked s @ [(i, fi)]\<rparr>"
    let ?s2 = "stress_ipsec_job_func E jobs ?s1"
    let ?s3 = "ipsec_add_stats i (time_now ?s2 - time_now s) (real (counter ?s2 - counter s)) ?s2"
    have a: "ipsec_later E s ?s1" by (rule ipsec_later_frame) simp_all
    have b: "ipsec_later E ?s1 ?s2" by (rule ipsec_later_job)
    have c: "ipsec_later E ?s2 ?s3" by (rule ipsec_later_frame) (simp_all add: ipsec_add_stats_def)
    have l3: "ipsec_later E s ?s3"
      by (rule ipsec_later_trans [OF a ipsec_later_trans [OF b c]])
    have sel: "supported ?s3 = supported s" "ip_tick ?s3 = Suc (ip_tick s)"
      "call_funcs ?s3 = call_funcs s" "invoked ?s3 = invoked s @ [(i, fi)]"
      by (simp_all add: ipsec_add_stats_def ipsec_job_func_sel)
    from Suc.hyps(1) [OF n, of ?s3] obtain s' where
      r: "stress_ipsec_call_func_loop F E jobs fi (i + 1) ?s3 = Some s'"
         "ipsec_later E ?s3 s'"
         "ip_tick s' = ip_tick ?s3 +
            length (filter (\<lambda>d. supported ?s3 ! d) [i + 1..<NUM_MB_FEATURES])"
         "call_funcs s' = call_funcs ?s3"
         "invoked s' = invoked ?s3 @
            map (\<lambda>d. (d, fi)) (filter (\<lambda>d. supported ?s3 ! d) [i + 1..<NUM_MB_FEATURES])"
      by blast
    have eq: "stress_ipsec_call_func_loop F E jobs fi i s = Some s'"
      using lt True ipsec_job_func_call [OF assms, of F E jobs ?s1] r(1)
      by (subst stress_ipsec_call_func_loop.simps) (simp add: Let_def)
    have "ipsec_later E s s'" by (rule ipsec_later_trans [OF l3 r(2)])
    with eq r(3,4,5) True show ?thesis
      unfolding sel by (simp add: u)
  qed
qed

text \<open>The loop of \<^verbatim>\<open>stress_ipsec_all\<close>, from function i on.\<close>

lemma ipsec_all_loop_log:
  assumes "0 < i" "i \<le> NUM_IPSEC_FUNCS"
  shows "\<exists>s' k. stress_ipsec_all_loop F E jobs i s = Some s' \<and>
     i \<le> k \<and> k \<le> NUM_IPSEC_FUNCS \<and> (k = NUM_IPSEC_FUNCS \<or> \<not> keep_stressing E s') \<and>
     (keep_stressing E s \<and> i < NUM_IPSEC_FUNCS \<longrightarrow> i < k) \<and>
     ipsec_later E s s' \<and>
     ip_tick s' = ip_tick s + (k - i) * length (supported_features s) \<and>
     call_funcs s' = call_funcs s @ [i..<k] \<and>
     invoked s' = invoked s @
       concat (map (\<lambda>fi. map (\<lambda>d. (d, fi)) (supported_features s)) [i..<k])"
  using assms
proof (induction "NUM_IPSEC_FUNCS - i" arbitrary: i s)
  case 0
  then have "i = NUM_IPSEC_FUNCS" by simp
  then show ?case
    by (subst stress_ipsec_all_loop.simps)
       (auto intro!: exI [of _ i] simp: ipsec_later_refl)
next
  case (Suc n)
  then have lt: "i < NUM_IPSEC_FUNCS" and pos: "0 < i" by simp_all
  have n: "n = NUM_IPSEC_FUNCS - Suc i" using Suc.hyps(2) by simp
  show ?case
  proof (cases "keep_stressing E s")
    case False
    then have "stress_ipsec_all_loop F E jobs i s = Some s"
      by (subst stress_ipsec_all_loop.simps) simp
    with False lt show ?thesis
      by (intro exI [of _ s] exI [of _ i]) (simp add: ipsec_later_refl)
  next
    case True
    let ?s0 = "s\<lparr>call_funcs := call_funcs s @ [i]\<rparr>"
    have l0: "ipsec_later E s ?s0" by (rule ipsec_later_frame) simp_all
    from ipsec_call_func_loop_log [OF pos lt, of F E jobs 0 ?s0] obtain s1 where
      cf: "stress_ipsec_call_func_loop F E jobs i 0 ?s0 = Some s1"
          "ipsec_later E ?s0 s1"
          "ip_tick s1 = ip_tick s + length (supported_features s)"
          "call_funcs s1 = call_funcs s @ [i]"
          "invoked s1 = invoked s @ map (\<lambda>d. (d, i)) (supported_features s)"
      by (auto simp: supported_features_def)
    have l1: "ipsec_later E s s1" by (rule ipsec_later_trans [OF l0 cf(2)])
    then have sf: "supported_features s1 = supported_features s"
      by (simp add: supported_features_def ipsec_later_def)
    from Suc.hyps(1) [OF n, of s1] lt obtain s' k where
      al: "stress_ipsec_all_loop F E jobs (Suc i) s1 = Some s'"
          "Suc i \<le> k" "k \<le> NUM_IPSEC_FUNCS"
          "k = NUM_IPSEC_FUNCS \<or> \<not> keep_stressing E s'"
          "ipsec_later E s1 s'"
          "ip_tick s' = ip_tick s1 + (k - Suc i) * length (supported_features s1)"
          "call_funcs s' = call_funcs s1 @ [Suc i..<k]"
          "invoked s' = invoked s1 @
             concat (map (\<lambda>fi. map (\<lambda>d. (d, fi)) (supported_features s1)) [Suc i..<k])"
      by auto
    have eq: "stress_ipsec_all_loop F E jobs i s = Some s'"
      using True lt cf(1) al(1) by (subst stress_ipsec_all_loop.simps) simp
    have u: "[i..<k] = i # [Suc i..<k]" using al(2) by (simp add: upt_rec)
    have k: "k - i = Suc (k - Suc i)" using al(2) by simp
    have "ipsec_later E s s'" by (rule ipsec_later_trans [OF l1 al(5)])
    with eq al(2,3,4,6,7,8) cf(3,4,5) show ?thesis
      unfolding sf
      by (intro exI [of _ s'] exI [of _ k]) (simp add: u k)
  qed
qed

text \<open>
  Progress: a call through the function table, a call of \<^verbatim>\<open>stress_ipsec_call_func\<close> and a
  pass of the main loop each return, and when a feature is supported they either run a
  job function (the number of the next outcome grows) or find the stop condition true.
\<close>

lemma ipsec_func_later:
  assumes "fi < NUM_IPSEC_FUNCS"
  shows "\<exists>s'. stress_ipsec_func F E jobs fi s = Some s' \<and> ipsec_later E s s' \<and>
     ((\<exists>d<NUM_MB_FEATURES. supported s ! d) \<longrightarrow>
        ip_tick s < ip_tick s' \<or> \<not> keep_stressing E s')"
proof (cases "fi = 0")
  case False
  with assms have "stress_ipsec_func F E jobs fi s = Some (stress_ipsec_job_func E jobs s)"
    by (simp add: ipsec_job_func_call)
  then show ?thesis
    by (simp add: ipsec_later_job ipsec_job_func_sel)
next
  case True
  have one: "0 < (1::nat)" "1 \<le> NUM_IPSEC_FUNCS"
    by (simp_all add: NUM_IPSEC_FUNCS_def stress_ipsec_funcs_def)
  from ipsec_all_loop_log [OF one, of F E jobs s] obtain s' k where
    al: "stress_ipsec_all_loop F E jobs 1 s = Some s'"
        "keep_stressing E s \<and> 1 < NUM_IPSEC_FUNCS \<longrightarrow> 1 < k"
        "ipsec_later E s s'"
        "ip_tick s' = ip_tick s + (k - 1) * length (supported_features s)"
    by blast
  have eq: "stress_ipsec_func F E jobs fi s = Some s'"
    using True al(1)
    by (subst stress_ipsec_func.simps) (simp add: NUM_IPSEC_FUNCS_def stress_ipsec_funcs_def)
  have "ip_tick s < ip_tick s' \<or> \<not> keep_stressing E s'"
    if d: "\<exists>d<NUM_MB_FEATURES. supported s ! d"
  proof (cases "keep_stressing E s")
    case False
    with ipsec_later_keep [OF al(3)] show ?thesis by blast
  next
    case True
    with al(2) have "1 < k" by (simp add: NUM_IPSEC_FUNCS_def stress_ipsec_funcs_def)
    moreover from d have "0 < length (supported_features s)"
      by (auto simp: supported_features_def filter_empty_conv)
    ultimately show ?thesis using al(4) by simp
  qed
  with eq al(3) show ?thesis by blast
qed

lemma ipsec_call_func_loop_later:
  assumes "fi < NUM_IPSEC_FUNCS"
  shows "\<exists>s'. stress_ipsec_call_func_loop F E jobs fi i s = Some s' \<and> ipsec_later E s s' \<and>
     ((\<exists>d. i \<le> d \<and> d < NUM_MB_FEATURES \<and> supported s ! d) \<longrightarrow>
        ip_tick s < ip_tick s' \<or> \<not> keep_stressing E s')"
proof (induction "NUM_MB_FEATURES - i" arbitrary: i s)
  case 0
  then show ?case
    by (subst stress_ipsec_call_func_loop.simps) (auto simp: ipsec_later_refl)
next
  case (Suc n)
  then have lt: "i < NUM_MB_FEATURES" by simp
  have n: "n = NUM_MB_FEATURES - (i + 1)" using Suc.hyps(2) by simp
  show ?case
  proof (cases "supported s ! i")
    case False
    from Suc.hyps(1) [OF n, of s] obtain s' where
      r: "stress_ipsec_call_func_loop F E jobs fi (i + 1) s = Some s'" "ipsec_later E s s'"
         "(\<exists>d. i + 1 \<le> d \<and> d < NUM_MB_FEATURES \<and> supported s ! d) \<longrightarrow>
            ip_tick s < ip_tick s' \<or> \<not> keep_stressing E s'"
      by blast
    have eq: "stress_ipsec_call_func_loop F E jobs fi i s = Some s'"
      using lt False r(1) by (subst stress_ipsec_call_func_loop.simps) simp
    have "\<exists>d. i + 1 \<le> d \<and> d < NUM_MB_FEATURES \<and> supported s ! d"
      if "\<exists>d. i \<le> d \<and> d < NUM_MB_FEATURES \<and> supported s ! d"
    proof -
      from that obtain d where d: "i \<le> d" "d < NUM_MB_FEATURES" "supported s ! d" by blast
      with False have "d \<noteq> i" by auto
      with d show ?thesis by (intro exI [of _ d]) simp
    qed
    with eq r(2,3) show ?thesis by blast
  next
    case True
    let ?s1 = "s\<lparr>mb_mgr_init := Some (init_func (mb_features F ! i)),
                   invoked := invoked s @ [(i, fi)]\<rparr>"
    have a: "ipsec_later E s ?s1" by (rule ipsec_later_frame) simp_all
    have "\<exists>d<NUM_MB_FEATURES. supported ?s1 ! d" using lt True by auto
    with ipsec_func_later [OF assms, of F E jobs ?s1] obtain s2 where
      f: "stress_ipsec_func F E jobs fi ?s1 = Some s2" "ipsec_later E ?s1 s2"
         "ip_tick ?s1 < ip_tick s2 \<or> \<not> keep_stressing E s2"
      by blast
    let ?s3 = "ipsec_add_stats i (time_now s2 - time_now s) (real (counter s2 - counter s)) s2"
    have c: "ipsec_later E s2 ?s3" by (rule ipsec_later_frame) (simp_all add: ipsec_add_stats_def)
    have l3: "ipsec_later E s ?s3"
      by (rule ipsec_later_trans [OF a ipsec_later_trans [OF f(2) c]])
    have p3: "ip_tick s < ip_tick ?s3 \<or> \<not> keep_stressing E ?s3"
      using f(3) by (simp add: ipsec_add_stats_def keep_stressing_def)
    from Suc.hyps(1) [OF n, of ?s3] obtain s' where
      r: "stress_ipsec_call_func_loop F E jobs fi (i + 1) ?s3 = Some s'" "ipsec_later E ?s3 s'"
      by blast
    have eq: "stress_ipsec_call_func_loop F E jobs fi i s = Some s'"
      using lt True f(1) r(1)
      by (subst stress_ipsec_call_func_loop.simps) (simp add: Let_def)
    have "ip_tick s < ip_tick s' \<or> \<not> keep_stressing E s'"
      using p3 r(2) ipsec_later_keep [OF r(2)] by (auto simp: ipsec_later_def)
    with eq ipsec_later_trans [OF l3 r(2)] show ?thesis by blast
  qed
qed

lemma ipsec_pass_later:
  assumes "m < NUM_IPSEC_FUNCS"
  shows "\<exists>s'. stress_ipsec_mb_pass F E jobs m i s = Some s' \<and> ipsec_later E s s' \<and>
     ((\<exists>d. i \<le> d \<and> d < NUM_MB_FEATURES \<and> supported s ! d) \<longrightarrow>
        ip_tick s < ip_tick s' \<or> \<not> keep_stressing E s')"
proof (induction "NUM_MB_FEATURES - i" arbitrary: i s)
  case 0
  then show ?case
    by (subst stress_ipsec_mb_pass.simps) (auto simp: ipsec_later_refl)
next
  case (Suc n)
  then have lt: "i < NUM_MB_FEATURES" by simp
  have n: "n = NUM_MB_FEATURES - (i + 1)" using Suc.hyps(2) by simp
  show ?case
  proof (cases "supported s ! i")
    case False
    from Suc.hyps(1) [OF n, of s] obtain s' where
      r: "stress_ipsec_mb_pass F E jobs m (i + 1) s = Some s'" "ipsec_later E s s'"
         "(\<exists>d. i + 1 \<le> d \<and> d < NUM_MB_FEATURES \<and> supported s ! d) \<longrightarrow>
            ip_tick s < ip_tick s' \<or> \<not> keep_stressing E s'"
      by blast
    have eq: "stress_ipsec_mb_pass F E jobs m i s = Some s'"
      using lt False r(1) by (subst stress_ipsec_mb_pass.simps) simp
    have "\<exists>d. i + 1 \<le> d \<and> d < NUM_MB_FEATURES \<and> supported s ! d"
      if "\<exists>d. i \<le> d \<and> d < NUM_MB_FEATURES \<and> supported s ! d"
    proof -
      from that obtain d where d: "i \<le> d" "d < NUM_MB_FEATURES" "supported s ! d" by blast
      with False have "d \<noteq> i" by auto
      with d show ?thesis by (intro exI [of _ d]) simp
    qed
    with eq r(2,3) show ?thesis by blast
  next
    case True
    let ?s1 = "s\<lparr>mb_mgr_init := Some (init_func (mb_features F ! i)),
                   call_funcs := call_funcs s @ [m]\<rparr>"
    have a: "ipsec_later E s ?s1" by (rule ipsec_later_frame) simp_all
    have "\<exists>d. 0 \<le> d \<and> d < NUM_MB_FEATURES \<and> supported ?s1 ! d" using lt True by auto
    with ipsec_call_func_loop_later [OF assms, of F E jobs 0 ?s1] obtain s2 where
      f: "stress_ipsec_call_func_loop F E jobs m 0 ?s1 = Some s2" "ipsec_later E ?s1 s2"
         "ip_tick ?s1 < ip_tick s2 \<or> \<not> keep_stressing E s2"
      by blast
    have l2: "ipsec_later E s s2" by (rule ipsec_later_trans [OF a f(2)])
    have p2: "ip_tick s < ip_tick s2 \<or> \<not> keep_stressing E s2" using f(3) by simp
    from Suc.hyps(1) [OF n, of s2] obtain s' where
      r: "stress_ipsec_mb_pass F E jobs m (i + 1) s2 = Some s'" "ipsec_later E s2 s'"
      by blast
    have eq: "stress_ipsec_mb_pass F E jobs m i s = Some s'"
      using lt True f(1) r(1)
      by (subst stress_ipsec_mb_pass.simps) (simp add: stress_ipsec_call_func_def)
    have "ip_tick s < ip_tick s' \<or> \<not> keep_stressing E s'"
      using p2 r(2) ipsec_later_keep [OF r(2)] by (auto simp: ipsec_later_def)
    with eq ipsec_later_trans [OF l2 r(2)] show ?thesis by blast
  qed
qed

text \<open>
  The main loop ends: once the deadline signal has arrived during the job function call
  numbered n, at most n + 1 passes are made.
\<close>

lemma ipsec_loop_returns:
  assumes "io_alarm (ip_outcome_of E n)" "m < NUM_IPSEC_FUNCS"
  shows "(\<exists>d<NUM_MB_FEATURES. supported s ! d) \<Longrightarrow>
     (ip_continue_flag s \<longrightarrow> ip_tick s \<le> n) \<Longrightarrow> 0 < fuel \<Longrightarrow> n < ip_tick s + fuel \<Longrightarrow>
     \<exists>s'. stress_ipsec_mb_loop fuel F E jobs m s = Some s' \<and> ipsec_later E s s' \<and>
          \<not> keep_stressing E s'"
proof (induction fuel arbitrary: s)
  case 0
  then show ?case by simp
next
  case (Suc f)
  from Suc.prems(1) have "\<exists>d. 0 \<le> d \<and> d < NUM_MB_FEATURES \<and> supported s ! d" by simp
  with ipsec_pass_later [OF assms(2), of F E jobs 0 s] obtain s1 where
    p: "stress_ipsec_mb_pass F E jobs m 0 s = Some s1" "ipsec_later E s s1"
       "ip_tick s < ip_tick s1 \<or> \<not> keep_stressing E s1"
    by blast
  show ?case
  proof (cases "keep_stressing E s1")
    case False
    with p show ?thesis by simp
  next
    case True
    then have flag: "ip_continue_flag s1" by (simp add: keep_stressing_def)
    from ipsec_later_alarm [OF p(2) assms(1) Suc.prems(2) flag] have le: "ip_tick s1 \<le> n" .
    from True p(3) have gt: "ip_tick s < ip_tick s1" by simp
    have sup: "\<exists>d<NUM_MB_FEATURES. supported s1 ! d"
      using Suc.prems(1) p(2) by (simp add: ipsec_later_def)
    have f: "0 < f" "n < ip_tick s1 + f" using le gt Suc.prems(4) by simp_all
    from Suc.IH [OF sup _ f] le obtain s' where
      r: "stress_ipsec_mb_loop f F E jobs m s1 = Some s'" "ipsec_later E s1 s'"
         "\<not> keep_stressing E s'"
      by blast
    from True p(1) r(1) have "stress_ipsec_mb_loop (Suc f) F E jobs m s = Some s'" by simp
    with ipsec_later_trans [OF p(2) r(2)] r(3) show ?thesis by blast
  qed
qed

lemma ipsec_report_zero:
  assumes "st_duration s = replicate NUM_MB_FEATURES 0"
  shows "stress_ipsec_report F 0 0 s = []"
proof -
  have "filter (\<lambda>d. st_duration s ! d > 0) [0..<NUM_MB_FEATURES] = []"
    using assms by (simp add: filter_empty_conv)
  then show ?thesis by (simp add: ipsec_report_enumerate)
qed

text \<open>
  \<^verbatim>\<open>stress_ipsec_mb\<close> returns: the metrics set are those of the report loop on the final
  state; the exit status is \<^verbatim>\<open>EXIT_NO_RESOURCE\<close> only when \<^verbatim>\<open>alloc_mb_mgr\<close> failed, and
  \<^verbatim>\<open>EXIT_SUCCESS\<close> only with the stop condition true at the end; and every job function
  call of the run made its own allocation attempt.
\<close>

lemma ipsec_mb_returns:
  assumes "io_alarm (ip_outcome_of E n)" "n < fuel" "m < NUM_IPSEC_FUNCS"
    "case feature of None \<Rightarrow> True | Some f \<Rightarrow> f < NUM_MB_FEATURES"
  shows "\<exists>rc s. stress_ipsec_mb fuel F E version_ok alloc_mb_mgr_ok feats feature m jobs =
       Some (rc, stress_ipsec_report F 0 0 s, s) \<and>
     allocs s = map (\<lambda>j. io_alloc_ok (ip_outcome_of E j)) [0..<ip_tick s] \<and>
     (rc = EXIT_SUCCESS \<and> \<not> keep_stressing E s \<or>
      rc = EXIT_NOT_IMPLEMENTED \<and> ip_tick s = 0 \<or>
      rc = EXIT_NO_RESOURCE \<and> ip_tick s = 0 \<and> \<not> alloc_mb_mgr_ok)"
proof -
  let ?sup = "map (\<lambda>d. (features d AND feats) = features d) (mb_features F)"
  let ?s1 = "ipsec_init\<lparr>supported := ?sup\<rparr>"
  have z0: "stress_ipsec_report F 0 0 ipsec_init = []"
    by (rule ipsec_report_zero) (simp add: ipsec_init_def)
  have z1: "\<And>x. stress_ipsec_report F 0 0 (ipsec_init\<lparr>supported := x\<rparr>) = []"
    by (rule ipsec_report_zero) (simp add: ipsec_init_def)
  have a0: "allocs ipsec_init = []" "ip_tick ipsec_init = 0"
    by (simp_all add: ipsec_init_def)
  have run: "\<exists>s. ipsec_run fuel F E jobs m (ipsec_init\<lparr>supported := x\<rparr>) =
         Some (EXIT_SUCCESS, stress_ipsec_report F 0 0 s, s) \<and>
       allocs s = map (\<lambda>j. io_alloc_ok (ip_outcome_of E j)) [0..<ip_tick s] \<and>
       \<not> keep_stressing E s"
    if x: "\<exists>d<NUM_MB_FEATURES. x ! d" for x
  proof -
    let ?s = "ipsec_init\<lparr>supported := x\<rparr>"
    have "\<exists>s'. stress_ipsec_mb_loop fuel F E jobs m ?s = Some s' \<and> ipsec_later E ?s s' \<and>
            \<not> keep_stressing E s'"
      using x assms(2)
      by (intro ipsec_loop_returns [OF assms(1,3)]) (simp_all add: ipsec_init_def)
    then obtain s' where
      l: "stress_ipsec_mb_loop fuel F E jobs m ?s = Some s'" "ipsec_later E ?s s'"
         "\<not> keep_stressing E s'" by blast
    from l(2) have "allocs s' = map (\<lambda>j. io_alloc_ok (ip_outcome_of E j)) [0..<ip_tick s']"
      by (simp add: ipsec_later_def a0)
    with l(1,3) show ?thesis
      by (simp add: ipsec_run_def)
  qed
  have len: "length ?sup = NUM_MB_FEATURES"
    by (simp add: mb_features_def NUM_MB_FEATURES_def)
  show ?thesis
  proof (cases "version_ok \<and> alloc_mb_mgr_ok \<and> True \<in> set ?sup")
    case False
    then show ?thesis
      by (auto simp: stress_ipsec_mb_def Let_def z0 z1 a0)
  next
    case True
    then obtain d where d: "d < NUM_MB_FEATURES" "?sup ! d"
      unfolding in_set_conv_nth len by auto
    show ?thesis
    proof (cases feature)
      case None
      from run [of ?sup] d obtain s where
        "ipsec_run fuel F E jobs m ?s1 = Some (EXIT_SUCCESS, stress_ipsec_report F 0 0 s, s)"
        "allocs s = map (\<lambda>j. io_alloc_ok (ip_outcome_of E j)) [0..<ip_tick s]"
        "\<not> keep_stressing E s" by blast
      with True None show ?thesis
        by (simp add: stress_ipsec_mb_def Let_def)
    next
      case (Some f)
      with assms(4) have f: "f < NUM_MB_FEATURES" by simp
      show ?thesis
      proof (cases "?sup ! f")
        case False
        with True Some f show ?thesis
          by (auto simp: stress_ipsec_mb_def Let_def z1 a0)
      next
        case sf: True
        have "\<exists>d<NUM_MB_FEATURES. map (\<lambda>i. i = f) [0..<NUM_MB_FEATURES] ! d"
          using f by (intro exI [of _ f]) simp
        from run [OF this] obtain s where
          "ipsec_run fuel F E jobs m
             (ipsec_init\<lparr>supported := map (\<lambda>i. i = f) [0..<NUM_MB_FEATURES]\<rparr>) =
             Some (EXIT_SUCCESS, stress_ipsec_report F 0 0 s, s)"
          "allocs s = map (\<lambda>j. io_alloc_ok (ip_outcome_of E j)) [0..<ip_tick s]"
          "\<not> keep_stressing E s" by blast
        with True Some f sf show ?thesis
          by (simp add: stress_ipsec_mb_def Let_def)
      qed
    qed
  qed
qed

section \<open>Runs of the decimal harness: what "all" calls, and that the run ends\<close>

lemma dfp_later_refl: "dfp_later E s s"
  by (simp add: dfp_later_def)

lemma dfp_later_trans:
  assumes "dfp_later E s s1" "dfp_later E s1 s2"
  shows "dfp_later E s s2"
proof -
  from assms have le: "tick s \<le> tick s1" "tick s1 \<le> tick s2"
    by (simp_all add: dfp_later_def)
  have i: "{tick s..<tick s2} = {tick s..<tick s1} \<union> {tick s1..<tick s2}"
    using le by auto
  show ?thesis
    using assms le by (auto simp: dfp_later_def i)
qed

lemma dfp_later_alarm:
  assumes "dfp_later E s s'" "o_alarm (outcome_of E n)"
    "continue_flag s \<longrightarrow> tick s \<le> n" "continue_flag s'"
  shows "tick s' \<le> n"
proof (rule ccontr)
  assume "\<not> tick s' \<le> n"
  moreover from assms have "tick s \<le> n" by (simp add: dfp_later_def)
  ultimately have "n \<in> {tick s..<tick s'}" by simp
  with assms(1,4) have "\<not> o_alarm (outcome_of E n)"
    by (simp add: dfp_later_def)
  with assms(2) show False by simp
qed

text \<open>A call of \<^verbatim>\<open>stress_dfp_call_method\<close> for a workload method runs the workload once,
  or twice when verifying.\<close>

lemma dfp_call_method_pos_later:
  assumes "0 < method" "method < STRESS_NUM_DFP_FUNCS B"
  shows "\<exists>rc s'. stress_dfp_call_method B E method verify s = Some (rc, s') \<and>
     dfp_later E s s' \<and> tick s < tick s' \<and>
     calls s' = calls s @ (if verify then [(method, 0), (method, 1)] else [(method, 0)])"
proof -
  from call_method_pos [OF assms, of E verify s] obtain m f where
    eq: "stress_dfp_call_method B E method verify s =
     Some (if verify then
             (if o_t2 (outcome_of E (Suc (tick s))) - o_t1 (outcome_of E (Suc (tick s))) < 0
              then (EXIT_FAILURE, pass1 E method m f s)
              else if \<not> continue_flag (pass1 E method m f s)
              then (EXIT_SUCCESS,
                    accumulate method
                      (o_t2 (outcome_of E (Suc (tick s))) - o_t1 (outcome_of E (Suc (tick s))))
                      (pass1 E method m f s))
              else stress_dfp_compare B method 0
                    (accumulate method
                      (o_t2 (outcome_of E (Suc (tick s))) - o_t1 (outcome_of E (Suc (tick s))))
                      (pass1 E method m f s)))
           else (EXIT_SUCCESS, pass0 E method m f s))"
    by blast
  have two: "{tick s..<Suc (Suc (tick s))} = {tick s, Suc (tick s)}" by auto
  show ?thesis
    unfolding eq
    by (cases "stress_dfp_compare B method 0
                    (accumulate method
                      (o_t2 (outcome_of E (Suc (tick s))) - o_t1 (outcome_of E (Suc (tick s))))
                      (pass1 E method m f s))")
       (use compare_frame [of B "method" 0 "accumulate method
                      (o_t2 (outcome_of E (Suc (tick s))) - o_t1 (outcome_of E (Suc (tick s))))
                      (pass1 E method m f s)"] in
        \<open>auto simp: pass0_sel pass1_sel accumulate_sel dfp_later_def two\<close>)
qed

text \<open>The loop of \<^verbatim>\<open>stress_dfp_all\<close>, from index i on.\<close>

lemma dfp_all_loop_log:
  assumes "0 < i" "i \<le> STRESS_NUM_DFP_FUNCS B"
  shows "\<exists>ret s' k. stress_dfp_all_loop B E v i s = Some (ret, s') \<and>
     i \<le> k \<and> k \<le> STRESS_NUM_DFP_FUNCS B \<and>
     (ret = 0 \<and> k = STRESS_NUM_DFP_FUNCS B \<or> ret = - 1 \<and> i < k) \<and>
     dfp_later E s s' \<and> (i < STRESS_NUM_DFP_FUNCS B \<longrightarrow> tick s < tick s') \<and>
     calls s' = calls s @
       concat (map (\<lambda>m. if v then [(m, 0), (m, 1)] else [(m, 0)]) [i..<k])"
  using assms
proof (induction "STRESS_NUM_DFP_FUNCS B - i" arbitrary: i s)
  case 0
  then have "i = STRESS_NUM_DFP_FUNCS B" by simp
  then show ?case
    by (subst stress_dfp_all_loop.simps) (auto intro!: exI [of _ i] simp: dfp_later_refl)
next
  case (Suc n)
  then have lt: "i < STRESS_NUM_DFP_FUNCS B" and pos: "0 < i" by simp_all
  from dfp_call_method_pos_later [OF pos lt, of E v s] obtain rc s1 where
    cm: "stress_dfp_call_method B E i v s = Some (rc, s1)" and
    l1: "dfp_later E s s1" "tick s < tick s1" and
    c1: "calls s1 = calls s @ (if v then [(i, 0), (i, 1)] else [(i, 0)])"
    by blast
  show ?case
  proof (cases "rc = EXIT_FAILURE")
    case True
    have al: "stress_dfp_all_loop B E v i s = Some (- 1, s1)"
      using lt cm True by (subst stress_dfp_all_loop.simps) simp
    have "[i..<Suc i] = [i]" by simp
    with al l1 c1 lt show ?thesis
      by (intro exI [of _ "- 1"] exI [of _ s1] exI [of _ "Suc i"]) simp
  next
    case False
    have "n = STRESS_NUM_DFP_FUNCS B - Suc i" using Suc.hyps(2) by simp
    from Suc.hyps(1) [OF this, of s1] lt obtain ret s' k where
      al: "stress_dfp_all_loop B E v (Suc i) s1 = Some (ret, s')" and
      k: "Suc i \<le> k" "k \<le> STRESS_NUM_DFP_FUNCS B"
         "ret = 0 \<and> k = STRESS_NUM_DFP_FUNCS B \<or> ret = - 1 \<and> Suc i < k" and
      l2: "dfp_later E s1 s'" and
      c2: "calls s' = calls s1 @
             concat (map (\<lambda>m. if v then [(m, 0), (m, 1)] else [(m, 0)]) [Suc i..<k])"
      by auto
    have u: "[i..<k] = i # [Suc i..<k]" using k(1) by (simp add: upt_rec)
    have al': "stress_dfp_all_loop B E v i s = Some (ret, s')"
      using lt cm False al by (subst stress_dfp_all_loop.simps) simp
    have l: "dfp_later E s s'" by (rule dfp_later_trans [OF l1(1) l2])
    have t: "tick s < tick s'" using l1(2) l2 by (simp add: dfp_later_def)
    have k': "ret = 0 \<and> k = STRESS_NUM_DFP_FUNCS B \<or> ret = - 1 \<and> i < k"
      using k(3) by auto
    from al' k(1,2) k' l t c1 c2 show ?thesis
      by (intro exI [of _ ret] exI [of _ s'] exI [of _ k]) (simp add: u)
  qed
qed

text \<open>The stressor is built when the compiler has one of the decimal types; the table
  then has a workload method.\<close>

lemma dfp_built_funcs:
  "HAVE_Decimal32 B \<or> HAVE_Decimal64 B \<or> HAVE_Decimal128 B \<Longrightarrow> 1 < STRESS_NUM_DFP_FUNCS B"
  by (auto simp: STRESS_NUM_DFP_FUNCS_def stress_dfp_funcs_def)

text \<open>Every call of \<^verbatim>\<open>stress_dfp_call_method\<close> of the run loop returns and has run a
  workload, when the table has one.\<close>

lemma dfp_call_method_later:
  assumes "method < STRESS_NUM_DFP_FUNCS B" "1 < STRESS_NUM_DFP_FUNCS B"
  shows "\<exists>rc s'. stress_dfp_call_method B E method verify s = Some (rc, s') \<and>
     dfp_later E s s' \<and> tick s < tick s'"
proof (cases "method = 0")
  case False
  with dfp_call_method_pos_later [OF _ assms(1), of E verify s] show ?thesis by blast
next
  case True
  have one: "0 < (1::nat)" "1 \<le> STRESS_NUM_DFP_FUNCS B" using assms(2) by simp_all
  from dfp_all_loop_log [OF one, of E "opt_flags_verify E" "log_call 0 0 s"] assms(2)
  obtain ret s1 where
    al: "stress_dfp_all_loop B E (opt_flags_verify E) 1 (log_call 0 0 s) = Some (ret, s1)"
        "dfp_later E (log_call 0 0 s) s1" "tick (log_call 0 0 s) < tick s1"
    by blast
  have f0: "dfp_func (stress_dfp_funcs B ! 0) = Fn_all"
    by (simp add: stress_dfp_funcs_def dfp_entry_def)
  have fc: "stress_dfp_func_call B E 0 0 s = Some (ret, s1)"
    using al(1) f0 dfp_num_funcs_pos [of B] by (subst stress_dfp_func_call.simps) simp
  have cm: "stress_dfp_call_method B E 0 verify s = Some (EXIT_SUCCESS, accumulate 0 ret s1)"
    by (subst stress_dfp_call_method.simps) (simp add: fc)
  have "dfp_later E s (accumulate 0 ret s1)" "tick s < tick (accumulate 0 ret s1)"
    using al(2,3) by (simp_all add: dfp_later_def log_call_sel accumulate_sel)
  with cm True show ?thesis by blast
qed

text \<open>
  The run loop ends: once the deadline signal has arrived during the workload run
  numbered n, at most n + 1 iterations are made.
\<close>

lemma dfp_loop_returns:
  assumes "o_alarm (outcome_of E n)" "method < STRESS_NUM_DFP_FUNCS B"
    "1 < STRESS_NUM_DFP_FUNCS B"
  shows "(continue_flag s \<longrightarrow> tick s \<le> n) \<Longrightarrow> 0 < fuel \<Longrightarrow> n < tick s + fuel \<Longrightarrow>
     \<exists>rc s'. stress_dfp_loop fuel B E method verify s = Some (rc, s')"
proof (induction fuel arbitrary: s)
  case 0
  then show ?case by simp
next
  case (Suc f)
  from dfp_call_method_later [OF assms(2,3), of E verify s] obtain rc s1 where
    cm: "stress_dfp_call_method B E method verify s = Some (rc, s1)"
        "dfp_later E s s1" "tick s < tick s1"
    by blast
  show ?case
  proof (cases "rc \<noteq> EXIT_FAILURE \<and> stress_continue E s1")
    case False
    with cm(1) show ?thesis by auto
  next
    case True
    then have flag: "continue_flag s1" by (simp add: stress_continue_def)
    from dfp_later_alarm [OF cm(2) assms(1) Suc.prems(1) flag] have le: "tick s1 \<le> n" .
    have f: "0 < f" "n < tick s1 + f" using le cm(3) Suc.prems(3) by simp_all
    from Suc.IH [OF _ f] le obtain rc' s' where
      "stress_dfp_loop f B E method verify s1 = Some (rc', s')" by blast
    with True cm(1) show ?thesis by simp
  qed
qed

lemma dfp_returns:
  assumes "o_alarm (outcome_of E n)" "n < fuel" "fp_method < STRESS_NUM_DFP_FUNCS B"
    "1 < STRESS_NUM_DFP_FUNCS B"
  shows "\<exists>rc s. stress_dfp fuel B E True fp_method rnd =
           Some (rc, stress_dfp_report B 1 s, Some s)"
proof -
  have "\<exists>rc s'. stress_dfp_loop fuel B E fp_method (opt_flags_verify E) (dfp_init B rnd) =
          Some (rc, s')"
    using assms(2) by (intro dfp_loop_returns [OF assms(1,3,4)]) (simp_all add: dfp_init_def)
  then show ?thesis by (auto simp: stress_dfp_def)
qed

section \<open>Runs of the prime search stressor: that the run ends\<close>

lemma deliver_sel:
  "iter (fst (deliver n s)) = iter s \<and>
   (\<not> pr_continue_flag s \<or> 0 < n \<longrightarrow> \<not> pr_continue_flag (fst (deliver n s)))"
proof (induction n arbitrary: s)
  case 0
  then show ?case by simp
next
  case (Suc n)
  have h: "iter (fst (stress_prime_alarm_handler s)) = iter s"
    "\<not> pr_continue_flag (fst (stress_prime_alarm_handler s))"
    by (simp_all add: stress_prime_alarm_handler_def Let_def)
  with Suc [of "fst (stress_prime_alarm_handler s)"] show ?case
    by (simp add: split_beta)
qed

text \<open>
  The loop ends: once SIGALRM has arrived during iteration k, the loop is left in that
  iteration at the latest, by its condition or by \<^verbatim>\<open>siglongjmp\<close>.
\<close>

lemma prime_loop_returns:
  assumes "0 < ev_alarms (event_of E k)"
  shows "iter s \<le> k \<Longrightarrow> k < iter s + fuel \<Longrightarrow>
     \<exists>s' esc. stress_prime_loop fuel E pm s = Some (s', esc)"
proof (induction fuel arbitrary: s)
  case 0
  then show ?case by simp
next
  case (Suc f)
  obtain s1 jmp where d: "deliver (ev_alarms (event_of E (iter s))) s = (s1, jmp)"
    by (cases "deliver (ev_alarms (event_of E (iter s))) s")
  from deliver_sel [of "ev_alarms (event_of E (iter s))" s] d
  have s1: "iter s1 = iter s"
    "0 < ev_alarms (event_of E (iter s)) \<longrightarrow> \<not> pr_continue_flag s1"
    by simp_all
  let ?s2 = "prime_body pm (event_of E (iter s)) s1"
  show ?case
  proof (cases "\<not> jmp \<and> prime_continue E ?s2")
    case False
    with d show ?thesis by (auto simp: Let_def)
  next
    case True
    then have "pr_continue_flag s1" by (simp add: prime_continue_def prime_body_sel)
    with s1(2) assms have "iter s \<noteq> k" by auto
    with Suc.prems have "iter ?s2 \<le> k" "k < iter ?s2 + f"
      by (simp_all add: prime_body_sel s1(1))
    from Suc.IH [OF this] obtain s' esc where
      "stress_prime_loop f E pm ?s2 = Some (s', esc)" by blast
    with True d show ?thesis by (simp add: Let_def)
  qed
qed

lemma prime_returns:
  assumes "0 < ev_alarms (event_of E k)" "k < fuel"
  shows "\<exists>r. stress_prime fuel E True pm = Some (EXIT_SUCCESS, r) \<and>
     pr_metrics r =
       [\<lparr>m_idx = 0, m_desc = ''primes per second'',
         m_value = (if pr_duration r > 0 then real (pr_bogo r) / pr_duration r else 0),
         m_kind = Some HARMONIC_MEAN\<rparr>]"
proof -
  from prime_loop_returns [OF assms(1), of prime_init fuel pm] assms(2)
  obtain s esc where l: "stress_prime_loop fuel E pm prime_init = Some (s, esc)"
    by (auto simp: prime_init_sel)
  let ?r = "stress_prime_finish (if esc then s\<lparr>jumped := True\<rparr> else s)"
  from l have "stress_prime fuel E True pm = Some (fst ?r, snd ?r)"
    by (simp add: stress_prime_def)
  then have e: "stress_prime fuel E True pm = Some (EXIT_SUCCESS, snd ?r)"
    by (simp add: prime_finish_sel)
  from prime_run_metrics [OF e] e show ?thesis by blast
qed

section \<open>The claims about the "all" entries, allocation failures and the reported rates\<close>

text \<open>
  Counterexample to C6 as stated. On a processor with SSE4.2, CMOV and AES-NI (features
  "noaesni" and "sse", indices 3 and 4, supported) one call of \<^verbatim>\<open>stress_ipsec_all\<close>
  dispatches the functions 1..7 once each, and every one of them runs twice, once under
  each supported feature: "all" does not call every other variant exactly once.
\<close>

theorem ipsec_all_runs_variant_per_feature:
  "map (\<lambda>d. (features d AND feats_sse_aesni) = features d) (mb_features imb_bits) =
     supported ipsec_two_supported \<and>
   (case stress_ipsec_all imb_bits ipsec_env_steady 128 ipsec_two_supported of
      None \<Rightarrow> None | Some s \<Rightarrow> Some (call_funcs s, invoked s)) =
     Some ([1, 2, 3, 4, 5, 6, 7],
           [(3, 1), (4, 1), (3, 2), (4, 2), (3, 3), (4, 3), (3, 4), (4, 4),
            (3, 5), (4, 5), (3, 6), (4, 6), (3, 7), (4, 7)])"
  by (simp add: stress_ipsec_all_def ipsec_eval ipsec_env_steady_def)

text \<open>
  C6, amended. \<^verbatim>\<open>stress_dfp_all\<close> is the spec's "all": it calls \<^verbatim>\<open>stress_dfp_call_method\<close>
  for the indices 1..N-1 in that order, each once, never for index 0, and stops at the
  first call that returns \<^verbatim>\<open>EXIT_FAILURE\<close>, returning -1.0; otherwise it returns 0.0 after
  the last. On the log of the calls through the table: they are exactly those of the
  indices 1..k-1 in order (one run into slot 0, and one into slot 1 when verifying), with
  k = N when it returns 0.0. \<^verbatim>\<open>stress_ipsec_all\<close> dispatches the indices 1..7 in order, each
  once and never index 0, through \<^verbatim>\<open>stress_ipsec_call_func\<close>, and stops before the first
  dispatch at which \<^verbatim>\<open>keep_stressing\<close> is false: it has dispatched 1..k-1, and k is 8 or the
  run's stop condition holds when it returns. Each dispatch runs the function once under
  every supported feature descriptor, in table order: a variant runs as many times as
  there are supported features, once only when exactly one is supported.
\<close>

theorem all_entry_calls_each_other_variant:
  "stress_dfp_all B E idx s =
     dfp_call_each B E (opt_flags_verify E) [1..<STRESS_NUM_DFP_FUNCS B] s \<and>
   (\<exists>ret s' k.
      stress_dfp_all B E idx s = Some (ret, s') \<and>
      1 \<le> k \<and> k \<le> STRESS_NUM_DFP_FUNCS B \<and>
      (ret = 0 \<and> k = STRESS_NUM_DFP_FUNCS B \<or> ret = - 1 \<and> 1 < k) \<and>
      calls s' = calls s @
        concat (map (\<lambda>m. if opt_flags_verify E then [(m, 0), (m, 1)] else [(m, 0)]) [1..<k])) \<and>
   stress_ipsec_all F E' jobs t = ipsec_call_each F E' jobs [1..<NUM_IPSEC_FUNCS] t \<and>
   (\<exists>t' k.
      stress_ipsec_all F E' jobs t = Some t' \<and>
      1 \<le> k \<and> k \<le> NUM_IPSEC_FUNCS \<and>
      (k = NUM_IPSEC_FUNCS \<or> \<not> keep_stressing E' t') \<and>
      call_funcs t' = call_funcs t @ [1..<k] \<and>
      invoked t' = invoked t @
        concat (map (\<lambda>fi. map (\<lambda>d. (d, fi)) (supported_features t)) [1..<k]))"
proof (intro conjI)
  show "stress_dfp_all B E idx s =
     dfp_call_each B E (opt_flags_verify E) [1..<STRESS_NUM_DFP_FUNCS B] s"
    unfolding stress_dfp_all_def by (rule all_loop_each)
next
  have one: "0 < (1::nat)" "1 \<le> STRESS_NUM_DFP_FUNCS B"
    using dfp_num_funcs_pos [of B] by simp_all
  from dfp_all_loop_log [OF one, of E "opt_flags_verify E" s]
  show "\<exists>ret s' k.
      stress_dfp_all B E idx s = Some (ret, s') \<and>
      1 \<le> k \<and> k \<le> STRESS_NUM_DFP_FUNCS B \<and>
      (ret = 0 \<and> k = STRESS_NUM_DFP_FUNCS B \<or> ret = - 1 \<and> 1 < k) \<and>
      calls s' = calls s @
        concat (map (\<lambda>m. if opt_flags_verify E then [(m, 0), (m, 1)] else [(m, 0)]) [1..<k])"
    unfolding stress_dfp_all_def by blast
next
  show "stress_ipsec_all F E' jobs t = ipsec_call_each F E' jobs [1..<NUM_IPSEC_FUNCS] t"
    unfolding stress_ipsec_all_def by (rule ipsec_all_loop_each)
next
  have one: "0 < (1::nat)" "1 \<le> NUM_IPSEC_FUNCS"
    by (simp_all add: NUM_IPSEC_FUNCS_def stress_ipsec_funcs_def)
  from ipsec_all_loop_log [OF one, of F E' jobs t]
  show "\<exists>t' k.
      stress_ipsec_all F E' jobs t = Some t' \<and>
      1 \<le> k \<and> k \<le> NUM_IPSEC_FUNCS \<and>
      (k = NUM_IPSEC_FUNCS \<or> \<not> keep_stressing E' t') \<and>
      call_funcs t' = call_funcs t @ [1..<k] \<and>
      invoked t' = invoked t @
        concat (map (\<lambda>fi. map (\<lambda>d. (d, fi)) (supported_features t)) [1..<k])"
    unfolding stress_ipsec_all_def by blast
qed

text \<open>
  C8, amended. When \<^verbatim>\<open>stress_mmap_populate\<close> fails, \<^verbatim>\<open>stress_dfp\<close> returns
  \<^verbatim>\<open>EXIT_NO_RESOURCE\<close> at once: no method is called and no metric set. When \<^verbatim>\<open>alloc_mb_mgr\<close>
  fails, \<^verbatim>\<open>stress_ipsec_mb\<close> returns \<^verbatim>\<open>EXIT_NO_RESOURCE\<close> at once, likewise. When the
  per-call \<^verbatim>\<open>stress_alloc_aligned\<close> of a job function fails, that call makes this one
  allocation attempt and returns without running a job: but for the time it took and a
  deadline signal it may have seen, the state is as before; the function has no status
  to return. \<^verbatim>\<open>stress_ipsec_call_func\<close> then adds the time the
  failed call took to the feature's \<^verbatim>\<open>stats.duration\<close>, leaves its \<^verbatim>\<open>stats.ops\<close> as it was,
  and goes on with the next feature. The run is not aborted: whatever allocations fail,
  a run whose manager was allocated and that sees the deadline signal returns
  \<^verbatim>\<open>EXIT_SUCCESS\<close>, with the stop condition true, or \<^verbatim>\<open>EXIT_NOT_IMPLEMENTED\<close> before any job
  function call; and every job function call of the run has made its own allocation
  attempt, also after a failed one.
\<close>

theorem alloc_failure_skips:
  "stress_dfp fuel B E False fp_method rnd = Some (EXIT_NO_RESOURCE, [], None) \<and>
   stress_ipsec_mb fuel' F E' True False feats feature ipsec_mb_method jobs =
     Some (EXIT_NO_RESOURCE, [], ipsec_init) \<and>
   allocs ipsec_init = [] \<and> invoked ipsec_init = [] \<and>
   (0 < fi \<and> fi < NUM_IPSEC_FUNCS \<and> \<not> io_alloc_ok (ip_outcome_of E' (ip_tick t)) \<longrightarrow>
      stress_ipsec_func F E' jobs fi t =
        Some (t\<lparr>time_now := time_now t + io_elapsed (ip_outcome_of E' (ip_tick t)),
                ip_continue_flag :=
                  (ip_continue_flag t \<and> \<not> io_alarm (ip_outcome_of E' (ip_tick t))),
                allocs := allocs t @ [False],
                ip_tick := ip_tick t + 1\<rparr>)) \<and>
   (i < NUM_MB_FEATURES \<and> supported t ! i \<and> 0 < fi \<and> fi < NUM_IPSEC_FUNCS \<and>
    \<not> io_alloc_ok (ip_outcome_of E' (ip_tick t)) \<longrightarrow>
      stress_ipsec_call_func_loop F E' jobs fi i t =
        stress_ipsec_call_func_loop F E' jobs fi (i + 1)
          (t\<lparr>st_duration := (st_duration t)
                [i := st_duration t ! i + io_elapsed (ip_outcome_of E' (ip_tick t))],
             time_now := time_now t + io_elapsed (ip_outcome_of E' (ip_tick t)),
             ip_continue_flag :=
               (ip_continue_flag t \<and> \<not> io_alarm (ip_outcome_of E' (ip_tick t))),
             mb_mgr_init := Some (init_func (mb_features F ! i)),
             allocs := allocs t @ [False],
             invoked := invoked t @ [(i, fi)],
             ip_tick := ip_tick t + 1\<rparr>)) \<and>
   (io_alarm (ip_outcome_of E' n) \<and> n < fuel' \<and> ipsec_mb_method < NUM_IPSEC_FUNCS \<and>
    (case feature of None \<Rightarrow> True | Some f \<Rightarrow> f < NUM_MB_FEATURES) \<longrightarrow>
      (\<exists>rc ms r.
         stress_ipsec_mb fuel' F E' True True feats feature ipsec_mb_method jobs =
           Some (rc, ms, r) \<and>
         (rc = EXIT_SUCCESS \<and> \<not> keep_stressing E' r \<or>
          rc = EXIT_NOT_IMPLEMENTED \<and> ip_tick r = 0) \<and>
         allocs r = map (\<lambda>j. io_alloc_ok (ip_outcome_of E' j)) [0..<ip_tick r]))"
proof (intro conjI impI)
  show "stress_dfp fuel B E False fp_method rnd = Some (EXIT_NO_RESOURCE, [], None)"
    by (simp add: stress_dfp_def)
  show "stress_ipsec_mb fuel' F E' True False feats feature ipsec_mb_method jobs =
     Some (EXIT_NO_RESOURCE, [], ipsec_init)"
    by (simp add: stress_ipsec_mb_def)
  show "allocs ipsec_init = []" "invoked ipsec_init = []"
    by (simp_all add: ipsec_init_def)
next
  assume a: "0 < fi \<and> fi < NUM_IPSEC_FUNCS \<and> \<not> io_alloc_ok (ip_outcome_of E' (ip_tick t))"
  then have "stress_ipsec_func F E' jobs fi t = Some (stress_ipsec_job_func E' jobs t)"
    by (simp add: ipsec_job_func_call)
  with a show "stress_ipsec_func F E' jobs fi t =
        Some (t\<lparr>time_now := time_now t + io_elapsed (ip_outcome_of E' (ip_tick t)),
                ip_continue_flag :=
                  (ip_continue_flag t \<and> \<not> io_alarm (ip_outcome_of E' (ip_tick t))),
                allocs := allocs t @ [False],
                ip_tick := ip_tick t + 1\<rparr>)"
    by (simp add: stress_ipsec_job_func_def Let_def)
next
  assume a: "i < NUM_MB_FEATURES \<and> supported t ! i \<and> 0 < fi \<and> fi < NUM_IPSEC_FUNCS \<and>
    \<not> io_alloc_ok (ip_outcome_of E' (ip_tick t))"
  let ?t1 = "t\<lparr>mb_mgr_init := Some (init_func (mb_features F ! i)),
                invoked := invoked t @ [(i, fi)]\<rparr>"
  from a have f: "stress_ipsec_func F E' jobs fi ?t1 = Some (stress_ipsec_job_func E' jobs ?t1)"
    by (simp add: ipsec_job_func_call)
  from a show "stress_ipsec_call_func_loop F E' jobs fi i t =
        stress_ipsec_call_func_loop F E' jobs fi (i + 1)
          (t\<lparr>st_duration := (st_duration t)
                [i := st_duration t ! i + io_elapsed (ip_outcome_of E' (ip_tick t))],
             time_now := time_now t + io_elapsed (ip_outcome_of E' (ip_tick t)),
             ip_continue_flag :=
               (ip_continue_flag t \<and> \<not> io_alarm (ip_outcome_of E' (ip_tick t))),
             mb_mgr_init := Some (init_func (mb_features F ! i)),
             allocs := allocs t @ [False],
             invoked := invoked t @ [(i, fi)],
             ip_tick := ip_tick t + 1\<rparr>)"
    apply (subst stress_ipsec_call_func_loop.simps)
    apply (simp add: f Let_def stress_ipsec_job_func_def ipsec_add_stats_def)
    apply (rule arg_cong [where f = "stress_ipsec_call_func_loop F E' jobs fi (Suc i)"])
    apply (rule ipsec_state.equality)
               apply simp_all
    done
next
  assume a: "io_alarm (ip_outcome_of E' n) \<and> n < fuel' \<and> ipsec_mb_method < NUM_IPSEC_FUNCS \<and>
    (case feature of None \<Rightarrow> True | Some f \<Rightarrow> f < NUM_MB_FEATURES)"
  then have h: "io_alarm (ip_outcome_of E' n)" "n < fuel'" "ipsec_mb_method < NUM_IPSEC_FUNCS"
    "case feature of None \<Rightarrow> True | Some f \<Rightarrow> f < NUM_MB_FEATURES"
    by simp_all
  from ipsec_mb_returns [OF h, of F True True feats jobs]
  show "\<exists>rc ms r.
         stress_ipsec_mb fuel' F E' True True feats feature ipsec_mb_method jobs =
           Some (rc, ms, r) \<and>
         (rc = EXIT_SUCCESS \<and> \<not> keep_stressing E' r \<or>
          rc = EXIT_NOT_IMPLEMENTED \<and> ip_tick r = 0) \<and>
         allocs r = map (\<lambda>j. io_alloc_ok (ip_outcome_of E' j)) [0..<ip_tick r]"
    by auto
qed

theorem alloc_failure_skips_witness:
  "\<not> io_alloc_ok (ip_outcome_of ipsec_env_alloc_fails (ip_tick ipsec_two_supported)) \<and>
   supported ipsec_two_supported ! 3 \<and>
   io_alarm (ip_outcome_of ipsec_env_alloc_fails 1) \<and>
   stress_ipsec_func imb_bits ipsec_env_alloc_fails 128 1 ipsec_two_supported =
     Some (ipsec_two_supported\<lparr>time_now := 1, allocs := [False], ip_tick := 1\<rparr>) \<and>
   stress_ipsec_call_func_loop imb_bits ipsec_env_alloc_fails 128 1 3 ipsec_two_supported =
     stress_ipsec_call_func_loop imb_bits ipsec_env_alloc_fails 128 1 4
       (ipsec_two_supported
          \<lparr>st_duration := [0, 0, 0, 1, 0], time_now := 1,
           mb_mgr_init := Some init_mb_mgr_sse, allocs := [False], invoked := [(3, 1)],
           ip_tick := 1\<rparr>) \<and>
   (\<exists>rc ms r.
      stress_ipsec_mb 2 imb_bits ipsec_env_alloc_fails True True feats_sse_aesni (Some 4) 1 128 =
        Some (rc, ms, r) \<and>
      (rc = EXIT_SUCCESS \<or> rc = EXIT_NOT_IMPLEMENTED) \<and>
      allocs r = map (\<lambda>j. io_alloc_ok (ip_outcome_of ipsec_env_alloc_fails j)) [0..<ip_tick r])"
proof -
  have h1: "0 < (1::nat) \<and> 1 < NUM_IPSEC_FUNCS \<and>
     \<not> io_alloc_ok (ip_outcome_of ipsec_env_alloc_fails (ip_tick ipsec_two_supported))"
    by (simp add: NUM_IPSEC_FUNCS_def stress_ipsec_funcs_def ipsec_env_alloc_fails_def
          ipsec_two_supported_def ipsec_init_def)
  have h2: "3 < NUM_MB_FEATURES \<and> supported ipsec_two_supported ! 3 \<and> 0 < (1::nat) \<and>
     1 < NUM_IPSEC_FUNCS \<and>
     \<not> io_alloc_ok (ip_outcome_of ipsec_env_alloc_fails (ip_tick ipsec_two_supported))"
    using h1 by (simp add: NUM_MB_FEATURES_def ipsec_two_supported_def)
  have h3: "io_alarm (ip_outcome_of ipsec_env_alloc_fails 1) \<and> 1 < (2::nat) \<and>
     1 < NUM_IPSEC_FUNCS \<and> (case Some 4 of None \<Rightarrow> True | Some f \<Rightarrow> f < NUM_MB_FEATURES)"
    by (simp add: NUM_IPSEC_FUNCS_def stress_ipsec_funcs_def ipsec_env_alloc_fails_def
          NUM_MB_FEATURES_def ipsec_outcome_1_def)
  note t = alloc_failure_skips [of 0 dfp_build_all dfp_env_steady 0 "\<lambda>i. 0" 2 imb_bits
      ipsec_env_alloc_fails feats_sse_aesni "Some 4" 1 128 1 ipsec_two_supported 3 1]
  note c5 = t [THEN conjunct2, THEN conjunct2, THEN conjunct2, THEN conjunct2,
      THEN conjunct1, THEN mp, OF h1]
  note c6 = t [THEN conjunct2, THEN conjunct2, THEN conjunct2, THEN conjunct2,
      THEN conjunct2, THEN conjunct1, THEN mp, OF h2]
  note c7 = t [THEN conjunct2, THEN conjunct2, THEN conjunct2, THEN conjunct2,
      THEN conjunct2, THEN conjunct2, THEN mp, OF h3]
  have a: "stress_ipsec_func imb_bits ipsec_env_alloc_fails 128 1 ipsec_two_supported =
     Some (ipsec_two_supported\<lparr>time_now := 1, allocs := [False], ip_tick := 1\<rparr>)"
    using c5
    by (simp add: ipsec_two_supported_def ipsec_init_def ipsec_env_alloc_fails_def
          ipsec_outcome_1_def)
  have b: "stress_ipsec_call_func_loop imb_bits ipsec_env_alloc_fails 128 1 3 ipsec_two_supported =
     stress_ipsec_call_func_loop imb_bits ipsec_env_alloc_fails 128 1 4
       (ipsec_two_supported
          \<lparr>st_duration := [0, 0, 0, 1, 0], time_now := 1,
           mb_mgr_init := Some init_mb_mgr_sse, allocs := [False], invoked := [(3, 1)],
           ip_tick := 1\<rparr>)"
    using c6
    by (simp add: ipsec_two_supported_def ipsec_init_def ipsec_env_alloc_fails_def
          ipsec_outcome_1_def mb_features_def NUM_MB_FEATURES_def replicate_five)
  from c7 have c: "\<exists>rc ms r.
      stress_ipsec_mb 2 imb_bits ipsec_env_alloc_fails True True feats_sse_aesni (Some 4) 1 128 =
        Some (rc, ms, r) \<and>
      (rc = EXIT_SUCCESS \<or> rc = EXIT_NOT_IMPLEMENTED) \<and>
      allocs r = map (\<lambda>j. io_alloc_ok (ip_outcome_of ipsec_env_alloc_fails j)) [0..<ip_tick r]"
    by blast
  from h2 h3 a b c show ?thesis by blast
qed

text \<open>
  C9, amended. Every division ops / duration of the three report paths is behind the test
  that the duration is positive. A run of the decimal stressor (built with at least one
  decimal type) that gets its data and sees the deadline signal ends, and sets, for each index 1..N-1 whose duration and ops are
  both positive in the final table, the metric (ops / duration) / 1000000 in slot
  index - 1 with the harmonic-mean kind, and nothing else. The prime stressor sets no
  metric when the signal handler cannot be installed (\<^verbatim>\<open>EXIT_NO_RESOURCE\<close>); otherwise a
  run that sees SIGALRM ends with \<^verbatim>\<open>EXIT_SUCCESS\<close> and sets the metric
  "primes per second" with the harmonic-mean kind, ops / duration when the duration is
  positive and 0.0 otherwise, so also when the duration is not positive. A run of the
  IPSec stressor that sees the deadline signal ends, and sets, for each feature whose
  duration is positive in the final statistics, the metric ops / duration in the next
  free slot, with no aggregation kind; a run that is skipped before its loop sets none.
\<close>

theorem rate_metrics_reported:
  "(o_alarm (outcome_of E n) \<and> n < fuel \<and> fp_method < STRESS_NUM_DFP_FUNCS B \<and>
    (HAVE_Decimal32 B \<or> HAVE_Decimal64 B \<or> HAVE_Decimal128 B) \<longrightarrow>
      (\<exists>rc s. stress_dfp fuel B E True fp_method rnd =
         Some (rc,
               map (\<lambda>j. \<lparr>m_idx = j - 1,
                          m_desc = dfp_metric_msg (dfp_description (stress_dfp_funcs B ! j)),
                          m_value = (ops s ! j / duration s ! j) / 1000000,
                          m_kind = Some HARMONIC_MEAN\<rparr>)
                 (filter (\<lambda>j. duration s ! j > 0 \<and> ops s ! j > 0)
                    [1..<STRESS_NUM_DFP_FUNCS B]),
               Some s))) \<and>
   stress_prime fuel' E' False pm = Some (EXIT_NO_RESOURCE, prime_init) \<and>
   pr_metrics prime_init = [] \<and>
   (0 < ev_alarms (event_of E' k) \<and> k < fuel' \<longrightarrow>
      (\<exists>r. stress_prime fuel' E' True pm = Some (EXIT_SUCCESS, r) \<and>
           pr_metrics r =
             [\<lparr>m_idx = 0, m_desc = ''primes per second'',
               m_value = (if pr_duration r > 0 then real (pr_bogo r) / pr_duration r else 0),
               m_kind = Some HARMONIC_MEAN\<rparr>])) \<and>
   (io_alarm (ip_outcome_of E'' j) \<and> j < fuel'' \<and> ipsec_mb_method < NUM_IPSEC_FUNCS \<and>
    (case feature of None \<Rightarrow> True | Some f \<Rightarrow> f < NUM_MB_FEATURES) \<longrightarrow>
      (\<exists>rc t. stress_ipsec_mb fuel'' F E'' version_ok alloc_mb_mgr_ok feats feature
                 ipsec_mb_method jobs =
         Some (rc,
               map (\<lambda>(n, d). \<lparr>m_idx = n,
                       m_desc = take 31 (feature_name (mb_features F ! d) @ '' bogo ops per sec''),
                       m_value = st_ops t ! d / st_duration t ! d,
                       m_kind = None\<rparr>)
                 (enumerate 0 (filter (\<lambda>d. st_duration t ! d > 0) [0..<NUM_MB_FEATURES])),
               t) \<and>
         (rc = EXIT_SUCCESS \<or> ip_tick t = 0)))"
proof (intro conjI impI)
  assume a: "o_alarm (outcome_of E n) \<and> n < fuel \<and> fp_method < STRESS_NUM_DFP_FUNCS B \<and>
    (HAVE_Decimal32 B \<or> HAVE_Decimal64 B \<or> HAVE_Decimal128 B)"
  then have h: "o_alarm (outcome_of E n)" "n < fuel" "fp_method < STRESS_NUM_DFP_FUNCS B"
    "1 < STRESS_NUM_DFP_FUNCS B" using dfp_built_funcs [of B] by simp_all
  from dfp_returns [OF h, of rnd]
  show "\<exists>rc s. stress_dfp fuel B E True fp_method rnd =
         Some (rc,
               map (\<lambda>j. \<lparr>m_idx = j - 1,
                          m_desc = dfp_metric_msg (dfp_description (stress_dfp_funcs B ! j)),
                          m_value = (ops s ! j / duration s ! j) / 1000000,
                          m_kind = Some HARMONIC_MEAN\<rparr>)
                 (filter (\<lambda>j. duration s ! j > 0 \<and> ops s ! j > 0)
                    [1..<STRESS_NUM_DFP_FUNCS B]),
               Some s)"
    unfolding dfp_report_eq .
next
  show "stress_prime fuel' E' False pm = Some (EXIT_NO_RESOURCE, prime_init)"
    by (simp add: stress_prime_def)
  show "pr_metrics prime_init = []" by (simp add: prime_init_def)
next
  assume "0 < ev_alarms (event_of E' k) \<and> k < fuel'"
  then have h: "0 < ev_alarms (event_of E' k)" "k < fuel'" by simp_all
  show "\<exists>r. stress_prime fuel' E' True pm = Some (EXIT_SUCCESS, r) \<and>
           pr_metrics r =
             [\<lparr>m_idx = 0, m_desc = ''primes per second'',
               m_value = (if pr_duration r > 0 then real (pr_bogo r) / pr_duration r else 0),
               m_kind = Some HARMONIC_MEAN\<rparr>]"
    by (rule prime_returns [OF h])
next
  assume "io_alarm (ip_outcome_of E'' j) \<and> j < fuel'' \<and> ipsec_mb_method < NUM_IPSEC_FUNCS \<and>
    (case feature of None \<Rightarrow> True | Some f \<Rightarrow> f < NUM_MB_FEATURES)"
  then have h: "io_alarm (ip_outcome_of E'' j)" "j < fuel''" "ipsec_mb_method < NUM_IPSEC_FUNCS"
    "case feature of None \<Rightarrow> True | Some f \<Rightarrow> f < NUM_MB_FEATURES"
    by simp_all
  from ipsec_mb_returns [OF h, of F version_ok alloc_mb_mgr_ok feats jobs]
  obtain rc t where
    r: "stress_ipsec_mb fuel'' F E'' version_ok alloc_mb_mgr_ok feats feature ipsec_mb_method jobs =
          Some (rc, stress_ipsec_report F 0 0 t, t)"
       "rc = EXIT_SUCCESS \<or> ip_tick t = 0"
    by blast
  show "\<exists>rc t. stress_ipsec_mb fuel'' F E'' version_ok alloc_mb_mgr_ok feats feature
                 ipsec_mb_method jobs =
         Some (rc,
               map (\<lambda>(n, d). \<lparr>m_idx = n,
                       m_desc = take 31 (feature_name (mb_features F ! d) @ '' bogo ops per sec''),
                       m_value = st_ops t ! d / st_duration t ! d,
                       m_kind = None\<rparr>)
                 (enumerate 0 (filter (\<lambda>d. st_duration t ! d > 0) [0..<NUM_MB_FEATURES])),
               t) \<and>
         (rc = EXIT_SUCCESS \<or> ip_tick t = 0)"
    using r unfolding ipsec_report_enumerate by blast
qed

theorem rate_metrics_reported_witness:
  "o_alarm (outcome_of dfp_env_alarm_second 1) \<and> HAVE_Decimal32 dfp_build_all \<and>
   (\<exists>rc ms s. stress_dfp 2 dfp_build_all dfp_env_alarm_second True 1 (\<lambda>i. 0) =
      Some (rc, ms, Some s) \<and> list_all (\<lambda>m. m_kind m = Some HARMONIC_MEAN) ms) \<and>
   0 < ev_alarms (event_of prime_env_instant 0) \<and>
   (\<exists>r. stress_prime 1 prime_env_instant True STRESS_PRIME_METHOD_INC = Some (EXIT_SUCCESS, r) \<and>
        map m_kind (pr_metrics r) = [Some HARMONIC_MEAN]) \<and>
   io_alarm (ip_outcome_of ipsec_env_alloc_fails 1) \<and>
   (\<exists>rc ms t. stress_ipsec_mb 2 imb_bits ipsec_env_alloc_fails True True feats_sse_aesni
                 (Some 4) 1 128 = Some (rc, ms, t) \<and>
      list_all (\<lambda>m. m_kind m = None) ms)"
proof -
  have h1: "o_alarm (outcome_of dfp_env_alarm_second 1) \<and> 1 < (2::nat) \<and>
     1 < STRESS_NUM_DFP_FUNCS dfp_build_all \<and>
     (HAVE_Decimal32 dfp_build_all \<or> HAVE_Decimal64 dfp_build_all \<or>
      HAVE_Decimal128 dfp_build_all)"
    by (simp add: dfp_env_alarm_second_def dfp_outcome_1_def STRESS_NUM_DFP_FUNCS_def
          stress_dfp_funcs_def dfp_build_all_def)
  have h1': "HAVE_Decimal32 dfp_build_all" by (simp add: dfp_build_all_def)
  have h2: "0 < ev_alarms (event_of prime_env_instant 0) \<and> 0 < (1::nat)"
    by (simp add: prime_env_instant_def)
  have h3: "io_alarm (ip_outcome_of ipsec_env_alloc_fails 1) \<and> 1 < (2::nat) \<and>
     1 < NUM_IPSEC_FUNCS \<and> (case Some 4 of None \<Rightarrow> True | Some f \<Rightarrow> f < NUM_MB_FEATURES)"
    by (simp add: NUM_IPSEC_FUNCS_def stress_ipsec_funcs_def ipsec_env_alloc_fails_def
          NUM_MB_FEATURES_def ipsec_outcome_1_def)
  note t = rate_metrics_reported [of dfp_env_alarm_second 1 2 1 dfp_build_all "\<lambda>i. 0"
      1 prime_env_instant STRESS_PRIME_METHOD_INC 0
      ipsec_env_alloc_fails 1 2 1 "Some 4" imb_bits True True feats_sse_aesni 128]
  note c1 = t [THEN conjunct1, THEN mp, OF h1]
  note c4 = t [THEN conjunct2, THEN conjunct2, THEN conjunct2, THEN conjunct1, THEN mp, OF h2]
  note c5 = t [THEN conjunct2, THEN conjunct2, THEN conjunct2, THEN conjunct2, THEN mp, OF h3]
  from c1 have a: "\<exists>rc ms s. stress_dfp 2 dfp_build_all dfp_env_alarm_second True 1 (\<lambda>i. 0) =
      Some (rc, ms, Some s) \<and> list_all (\<lambda>m. m_kind m = Some HARMONIC_MEAN) ms"
    by (auto simp: list_all_iff)
  from c4 have b: "\<exists>r. stress_prime 1 prime_env_instant True STRESS_PRIME_METHOD_INC =
      Some (EXIT_SUCCESS, r) \<and> map m_kind (pr_metrics r) = [Some HARMONIC_MEAN]"
    by auto
  from c5 have c: "\<exists>rc ms t. stress_ipsec_mb 2 imb_bits ipsec_env_alloc_fails True True
      feats_sse_aesni (Some 4) 1 128 = Some (rc, ms, t) \<and> list_all (\<lambda>m. m_kind m = None) ms"
    by (auto simp: list_all_iff)
  from h1 h1' h2 h3 a b c show ?thesis by blast
qed

end
